theory Spec2Isabelle
  imports Main "HOL-Library.AList"
begin


section \<open>Python values and exceptions\<close>

text \<open>
  The service is Python. An exception is a value: its class and the text that
  \<^verbatim>\<open>str(exc)\<close> gives. A function that may raise returns \<open>py_exn + 'a\<close>, with
  \<open>Inl\<close> for the exception.
\<close>

datatype py_exn =
    JSONDecodeError string
  | RuntimeError string
  | AttributeError string
  | TypeError string
  | IndexError string
  | KeyError string
  | ValidationError string
  | OtherException string

fun exn_str :: "py_exn \<Rightarrow> string" where
  "exn_str (JSONDecodeError m) = m"
| "exn_str (RuntimeError m) = m"
| "exn_str (AttributeError m) = m"
| "exn_str (TypeError m) = m"
| "exn_str (IndexError m) = m"
| "exn_str (KeyError m) = m"
| "exn_str (ValidationError m) = m"
| "exn_str (OtherException m) = m"

text \<open>
  A Python \<^verbatim>\<open>str\<close> is the list of its code points, one \<open>char\<close> for each: the
  model holds the code points up to U+00FF, so that \<^verbatim>\<open>len\<close>, indexing and slicing
  count what Python counts.
\<close>

text \<open>
  What \<^verbatim>\<open>json.loads\<close> returns: \<^verbatim>\<open>None\<close>, a bool, an int, a float (kept as its
  literal, the code never computes with one), a str, a list or a dict. A dict keeps
  its insertion order, so it is an association list.
\<close>

datatype json =
    JNull
  | JBool bool
  | JInt int
  | JFloat string
  | JStr string
  | JArr "json list"
  | JObj "(string \<times> json) list"

fun type_name :: "json \<Rightarrow> string" where
  "type_name JNull = ''NoneType''"
| "type_name (JBool b) = ''bool''"
| "type_name (JInt i) = ''int''"
| "type_name (JFloat f) = ''float''"
| "type_name (JStr s) = ''str''"
| "type_name (JArr xs) = ''list''"
| "type_name (JObj kvs) = ''dict''"

text \<open>\<^verbatim>\<open>str(n)\<close> for a natural number, in decimal.\<close>

definition digit_char :: "nat \<Rightarrow> char" where
  "digit_char d = ''0123456789'' ! d"

function str_nat :: "nat \<Rightarrow> string" where
  "str_nat n = (if n < 10 then [digit_char n] else str_nat (n div 10) @ [digit_char (n mod 10)])"
  by pat_completeness auto
termination
  by (relation "measure id") auto

declare str_nat.simps [simp del]

definition str_int :: "int \<Rightarrow> string" where
  "str_int i = (if i < 0 then CHR ''-'' # str_nat (nat (- i)) else str_nat (nat i))"

text \<open>\<^verbatim>\<open>len(v)\<close>, \<^verbatim>\<open>v[index]\<close> for an index that is not negative, and \<^verbatim>\<open>v[:stop]\<close>.\<close>

fun py_len :: "json \<Rightarrow> py_exn + nat" where
  "py_len (JArr xs) = Inr (length xs)"
| "py_len (JObj kvs) = Inr (length kvs)"
| "py_len (JStr s) = Inr (length s)"
| "py_len v = Inl (TypeError (''object of type '' @ [CHR 0x27] @ type_name v @ [CHR 0x27] @ '' has no len()''))"

fun py_getitem :: "json \<Rightarrow> nat \<Rightarrow> py_exn + json" where
  "py_getitem (JArr xs) i =
     (if i < length xs then Inr (xs ! i) else Inl (IndexError ''list index out of range''))"
| "py_getitem (JStr s) i =
     (if i < length s then Inr (JStr [s ! i]) else Inl (IndexError ''string index out of range''))"
| "py_getitem (JObj kvs) i = Inl (KeyError (str_nat i))"
| "py_getitem v i =
     Inl (TypeError ([CHR 0x27] @ type_name v @ [CHR 0x27] @ '' object is not subscriptable''))"

definition slice_to :: "'a list \<Rightarrow> int \<Rightarrow> 'a list" where
  "slice_to xs stop =
     (if 0 \<le> stop then take (nat stop) xs else take (nat (int (length xs) + stop)) xs)"

fun py_slice_to :: "json \<Rightarrow> int \<Rightarrow> py_exn + json" where
  "py_slice_to (JArr xs) stop = Inr (JArr (slice_to xs stop))"
| "py_slice_to (JStr s) stop = Inr (JStr (slice_to s stop))"
| "py_slice_to (JObj kvs) stop =
     Inl (TypeError (''unhashable type: '' @ [CHR 0x27] @ ''slice'' @ [CHR 0x27]))"
| "py_slice_to v stop =
     Inl (TypeError ([CHR 0x27] @ type_name v @ [CHR 0x27] @ '' object is not subscriptable''))"

section \<open>The batch planner\<close>

text \<open>
  \<^verbatim>\<open>FlashcardBatch\<close> and \<^verbatim>\<open>MultiAgentFlashcardState\<close> of
  \<^verbatim>\<open>multi_agent_flashcards.py\<close>. A flashcard is a dict; \<^verbatim>\<open>uuid4\<close> and the clock
  are inputs.
\<close>

type_synonym flashcard = "(string \<times> json) list"

record flashcard_batch =
  batch_id :: string
  topic :: string
  subtopic :: string
  count :: int
  difficulty :: string
  agent_id :: int
  flashcards :: "flashcard list"
  status :: string
  error_message :: "string option"

record multi_agent_flashcard_state =
  request_id :: string
  state_topic :: string
  total_count :: int
  state_difficulty :: string
  subject :: "string option"
  user_id :: string
  batches :: "flashcard_batch list"
  completed_flashcards :: "flashcard list"
  state_status :: string
  start_time :: int
  end_time :: "int option"
  agents_count :: int

text \<open>
  \<^verbatim>\<open>_generate_subtopics\<close>. \<open>configured\<close> is \<^verbatim>\<open>is_openai_configured()\<close>;
  \<open>decomposed\<close> is how the \<^verbatim>\<open>try\<close> block ends: the exception it raised
  (the provider call, the access to the response or \<^verbatim>\<open>json.loads\<close>), or the value
  \<^verbatim>\<open>json.loads\<close> returned. The padding loop and the slice run after the
  \<^verbatim>\<open>try\<close>, on whatever value that is.
\<close>

definition generic_label :: "string \<Rightarrow> nat \<Rightarrow> string" where
  "generic_label main_topic n = main_topic @ '' - Parte '' @ str_nat n"

function pad_list :: "string \<Rightarrow> int \<Rightarrow> json list \<Rightarrow> json list" where
  "pad_list main_topic cnt subtopics =
     (if int (length subtopics) < cnt
      then pad_list main_topic cnt
             (subtopics @ [JStr (generic_label main_topic (length subtopics + 1))])
      else subtopics)"
  by pat_completeness auto
termination
  by (relation "measure (\<lambda>(t, c, xs). nat c - length xs)") auto

declare pad_list.simps [simp del]

definition pad_subtopics :: "string \<Rightarrow> int \<Rightarrow> json \<Rightarrow> py_exn + json" where
  "pad_subtopics main_topic cnt subtopics =
     (case py_len subtopics of
        Inl e \<Rightarrow> Inl e
      | Inr n \<Rightarrow>
          if int n < cnt then
            (case subtopics of
               JArr xs \<Rightarrow> Inr (JArr (pad_list main_topic cnt xs))
             | v \<Rightarrow> Inl (AttributeError ([CHR 0x27] @ type_name v @ [CHR 0x27]
                         @ '' object has no attribute '' @ [CHR 0x27] @ ''append'' @ [CHR 0x27])))
          else Inr subtopics)"

definition generate_subtopics ::
  "bool \<Rightarrow> (py_exn + json) \<Rightarrow> string \<Rightarrow> int \<Rightarrow> py_exn + json" where
  "generate_subtopics configured decomposed main_topic cnt =
     (if \<not> configured
      then Inr (JArr (map (\<lambda>i. JStr (generic_label main_topic (i + 1))) [0..<nat cnt]))
      else
        let subtopics = (case decomposed of Inl exc \<Rightarrow> JArr [] | Inr v \<Rightarrow> v) in
        case pad_subtopics main_topic cnt subtopics of
          Inl e \<Rightarrow> Inl e
        | Inr padded \<Rightarrow> py_slice_to padded cnt)"

text \<open>
  \<^verbatim>\<open>_create_batches\<close>. The \<^verbatim>\<open>subtopic\<close> field of a batch is a pydantic
  \<^verbatim>\<open>str\<close>: a label that is not a string is refused when the batch is built.
  \<open>uuid k\<close> is the identifier drawn for the \<open>k\<close>-th batch built.
\<close>

text \<open>
  The text of the \<open>ValidationError\<close> is the line of pydantic's report that names the
  fault; the report itself is longer and repeats the input.
\<close>

fun pydantic_str :: "json \<Rightarrow> py_exn + string" where
  "pydantic_str (JStr s) = Inr s"
| "pydantic_str v = Inl (ValidationError ''Input should be a valid string'')"

fun batches_loop ::
  "(nat \<Rightarrow> string) \<Rightarrow> multi_agent_flashcard_state \<Rightarrow> json \<Rightarrow> int \<Rightarrow> int \<Rightarrow>
     nat list \<Rightarrow> flashcard_batch list \<Rightarrow> py_exn + flashcard_batch list" where
  "batches_loop uuid st subtopics flashcards_per_agent remaining [] acc = Inr acc"
| "batches_loop uuid st subtopics flashcards_per_agent remaining (index # rest) acc =
     (let count_for_agent = flashcards_per_agent + (if int index < remaining then 1 else 0) in
      if count_for_agent \<le> 0
      then batches_loop uuid st subtopics flashcards_per_agent remaining rest acc
      else
        case py_getitem subtopics index of
          Inl e \<Rightarrow> Inl e
        | Inr label \<Rightarrow>
            (case pydantic_str label of
               Inl e \<Rightarrow> Inl e
             | Inr s \<Rightarrow>
                 batches_loop uuid st subtopics flashcards_per_agent remaining rest
                   (acc @ [\<lparr>batch_id = uuid (length acc), topic = state_topic st,
                            subtopic = s, count = count_for_agent,
                            difficulty = state_difficulty st, agent_id = int index + 1,
                            flashcards = [], status = ''pending'',
                            error_message = None\<rparr>])))"

definition create_batches ::
  "(nat \<Rightarrow> string) \<Rightarrow> bool \<Rightarrow> (py_exn + json) \<Rightarrow> int \<Rightarrow> multi_agent_flashcard_state \<Rightarrow>
     py_exn + (flashcard_batch list \<times> multi_agent_flashcard_state)" where
  "create_batches uuid configured decomposed max_agents st =
     (let agents_to_use = max 1 (min max_agents (total_count st));
          st1 = st\<lparr>agents_count := agents_to_use\<rparr> in
      case generate_subtopics configured decomposed (state_topic st1) agents_to_use of
        Inl e \<Rightarrow> Inl e
      | Inr subtopics \<Rightarrow>
          let flashcards_per_agent = max 1 (total_count st1 div agents_to_use);
              remaining = total_count st1 mod agents_to_use in
          (case batches_loop uuid st1 subtopics flashcards_per_agent remaining
                  [0..<nat agents_to_use] [] of
             Inl e \<Rightarrow> Inl e
           | Inr bs \<Rightarrow> Inr (bs, st1)))"

definition estimate_batches :: "int \<Rightarrow> int \<Rightarrow> int" where
  "estimate_batches max_agents requested_count =
     (if requested_count \<le> 0 then 1 else min max_agents requested_count)"

text \<open>
  The outcomes of the decomposition that yield labels: no provider configured, a
  call that raised, or a JSON list of strings.
\<close>

fun is_label :: "json \<Rightarrow> bool" where
  "is_label (JStr s) = True"
| "is_label v = False"

definition usable_decomposition :: "bool \<Rightarrow> (py_exn + json) \<Rightarrow> bool" where
  "usable_decomposition configured decomposed =
     (if \<not> configured then True
      else case decomposed of
             Inl exc \<Rightarrow> True
           | Inr (JArr xs) \<Rightarrow> list_all is_label xs
           | Inr v \<Rightarrow> False)"

text \<open>A request for 10 flashcards on photosynthesis, as the orchestrator builds its state.\<close>

definition photosynthesis_state :: "int \<Rightarrow> multi_agent_flashcard_state" where
  "photosynthesis_state n =
     \<lparr>request_id = ''req'', state_topic = ''Photosynthesis'', total_count = n,
      state_difficulty = ''medium'', subject = None, user_id = ''default'',
      batches = [], completed_flashcards = [], state_status = ''initializing'',
      start_time = 0, end_time = None, agents_count = 1\<rparr>"

section \<open>The progress tracker\<close>

text \<open>
  \<^verbatim>\<open>ProgressTracker\<close> of \<^verbatim>\<open>ai_service.py\<close>. \<^verbatim>\<open>agents_status\<close> is a dict from
  agent ids to a slot; the clock reading of each call is an argument. A tracker is an
  object that the table \<^verbatim>\<open>progress_store\<close> and the callbacks of its operation share,
  so the process state holds the objects in a heap and the table maps an operation id
  to a reference.
\<close>

record agent_slot =
  slot_status :: string
  slot_subtopic :: string
  slot_progress :: int
  completed_at :: "int option"

record progress_tracker =
  operation_id :: string
  total_agents :: int
  tracker_start_time :: int
  completed_agents :: int
  agents_status :: "(int \<times> agent_slot) list"

definition terminal :: "string \<Rightarrow> bool" where
  "terminal st = (st = ''completed'' \<or> st = ''error'')"

definition waiting_slot :: agent_slot where
  "waiting_slot = \<lparr>slot_status = ''waiting'', slot_subtopic = '''', slot_progress = 0,
                    completed_at = None\<rparr>"

fun ensure_slots_loop :: "int list \<Rightarrow> (int \<times> agent_slot) list \<Rightarrow> (int \<times> agent_slot) list" where
  "ensure_slots_loop [] slots = slots"
| "ensure_slots_loop (i # rest) slots =
     ensure_slots_loop rest
       (if map_of slots i = None then AList.update i waiting_slot slots else slots)"

definition ensure_agent_slots :: "int \<Rightarrow> progress_tracker \<Rightarrow> progress_tracker" where
  "ensure_agent_slots n t = t\<lparr>agents_status := ensure_slots_loop [1..n] (agents_status t)\<rparr>"

definition new_tracker :: "string \<Rightarrow> int \<Rightarrow> int \<Rightarrow> progress_tracker" where
  "new_tracker op_id n now =
     ensure_agent_slots (max 1 n)
       \<lparr>operation_id = op_id, total_agents = max 1 n, tracker_start_time = now,
        completed_agents = 0, agents_status = []\<rparr>"

definition set_total_agents :: "int \<Rightarrow> progress_tracker \<Rightarrow> progress_tracker" where
  "set_total_agents n t =
     (if n \<le> 0 then t
      else if n \<noteq> total_agents t then ensure_agent_slots n (t\<lparr>total_agents := n\<rparr>)
      else t)"

definition update_agent_status ::
  "int \<Rightarrow> int \<Rightarrow> string \<Rightarrow> string \<Rightarrow> int \<Rightarrow> progress_tracker \<Rightarrow> py_exn + progress_tracker" where
  "update_agent_status now aid st sub progress t =
     (let t1 = (if map_of (agents_status t) aid = None then ensure_agent_slots aid t else t) in
      case map_of (agents_status t1) aid of
        None \<Rightarrow> Inl (KeyError (str_int aid))
      | Some slot \<Rightarrow>
          let previous_status = slot_status slot;
              t2 = t1\<lparr>agents_status :=
                       AList.update aid
                         \<lparr>slot_status = st, slot_subtopic = sub, slot_progress = progress,
                          completed_at = (if terminal st then Some now else None)\<rparr>
                         (agents_status t1)\<rparr>
          in Inr (if terminal st \<and> \<not> terminal previous_status
                  then t2\<lparr>completed_agents := min (total_agents t2) (completed_agents t2 + 1)\<rparr>
                  else t2))"

text \<open>
  A call of \<^verbatim>\<open>update_agent_status\<close>: the clock, the agent, the status, the subtopic
  and the percentage. A sequence of calls on one tracker stops at the first that raises.
\<close>

type_synonym update_call = "int \<times> int \<times> string \<times> string \<times> int"

fun apply_update :: "update_call \<Rightarrow> progress_tracker \<Rightarrow> py_exn + progress_tracker" where
  "apply_update (now, aid, st, sub, progress) t = update_agent_status now aid st sub progress t"

fun call_agent :: "update_call \<Rightarrow> int" where
  "call_agent (now, aid, st, sub, progress) = aid"

fun call_status :: "update_call \<Rightarrow> string" where
  "call_status (now, aid, st, sub, progress) = st"

fun run_updates :: "update_call list \<Rightarrow> progress_tracker \<Rightarrow> py_exn + progress_tracker" where
  "run_updates [] t = Inr t"
| "run_updates (c # cs) t =
     (case apply_update c t of Inl e \<Rightarrow> Inl e | Inr t' \<Rightarrow> run_updates cs t')"

text \<open>The status an agent has in a tracker, and the agents whose status is terminal.\<close>

definition status_of :: "progress_tracker \<Rightarrow> int \<Rightarrow> string option" where
  "status_of t aid = map_option slot_status (map_of (agents_status t) aid)"

definition terminal_slot :: "int \<times> agent_slot \<Rightarrow> bool" where
  "terminal_slot p = terminal (slot_status (snd p))"

definition terminal_count :: "progress_tracker \<Rightarrow> nat" where
  "terminal_count t = length (filter terminal_slot (agents_status t))"

definition terminal_agents :: "progress_tracker \<Rightarrow> int list" where
  "terminal_agents t = map fst (filter terminal_slot (agents_status t))"

text \<open>
  \<open>enters_terminal c t\<close>: the call reports a terminal status for an agent whose
  status in \<open>t\<close> is not terminal (an agent with no slot yet counts as waiting).
\<close>

fun enters_terminal :: "update_call \<Rightarrow> progress_tracker \<Rightarrow> bool" where
  "enters_terminal (now, aid, st, sub, progress) t =
     (terminal st \<and> (case status_of t aid of None \<Rightarrow> True | Some prev \<Rightarrow> \<not> terminal prev))"

text \<open>
  \<open>leaves_terminal\<close>: the call moves an agent from a terminal status back to one that
  is not, as \<^verbatim>\<open>finalize_agents("processing", 10)\<close> does before the fallback.
\<close>

fun leaves_terminal :: "update_call \<Rightarrow> progress_tracker \<Rightarrow> bool" where
  "leaves_terminal (now, aid, st, sub, progress) t =
     (\<not> terminal st \<and> (case status_of t aid of None \<Rightarrow> False | Some prev \<Rightarrow> terminal prev))"

fun forward_only :: "update_call list \<Rightarrow> progress_tracker \<Rightarrow> bool" where
  "forward_only [] t = True"
| "forward_only (c # cs) t =
     (\<not> leaves_terminal c t \<and>
      (case apply_update c t of Inl e \<Rightarrow> True | Inr t' \<Rightarrow> forward_only cs t'))"

text \<open>
  \<open>count_entries cs t\<close>: how many calls of the run \<open>cs\<close> from \<open>t\<close> move an agent
  into a terminal status. \<open>reported_terminal cs\<close>: the agents for which some call of
  \<open>cs\<close> reports a terminal status, each once.
\<close>

fun count_entries :: "update_call list \<Rightarrow> progress_tracker \<Rightarrow> nat" where
  "count_entries [] t = 0"
| "count_entries (c # cs) t =
     (if enters_terminal c t then 1 else 0)
       + (case apply_update c t of Inl e \<Rightarrow> 0 | Inr t' \<Rightarrow> count_entries cs t')"

definition reported_terminal :: "update_call list \<Rightarrow> int list" where
  "reported_terminal cs = remdups (map call_agent (filter (\<lambda>c. terminal (call_status c)) cs))"

text \<open>A run of two agents: one fails and reports it twice, the other completes.\<close>

definition sample_calls :: "update_call list" where
  "sample_calls =
     [(1, 1, ''processing'', ''Light reactions'', 5),
      (2, 2, ''error'', ''Calvin cycle'', 100),
      (3, 2, ''error'', ''Calvin cycle'', 100),
      (4, 1, ''completed'', ''Light reactions'', 100)]"


section \<open>The worker\<close>

text \<open>
  \<^verbatim>\<open>FlashcardAgent.generate_flashcards_batch\<close>. A progress callback receives the
  agent, the status, the subtopic, the percentage and the number of batches; what the
  callback is given is recorded as an event, in the order of the calls. The callback is
  optional: without one nothing is recorded.
\<close>

record progress_event =
  ev_agent :: int
  ev_status :: string
  ev_subtopic :: string
  ev_progress :: int
  ev_total :: "int option"

definition emit :: "bool \<Rightarrow> int \<Rightarrow> flashcard_batch \<Rightarrow> int \<Rightarrow> string \<Rightarrow> int \<Rightarrow> progress_event list" where
  "emit progress_callback self_agent_id batch total_batches st progress =
     (if progress_callback
      then [\<lparr>ev_agent = self_agent_id, ev_status = st, ev_subtopic = subtopic batch,
             ev_progress = progress, ev_total = Some total_batches\<rparr>]
      else [])"

text \<open>\<^verbatim>\<open>d.get(key, default)\<close>, iteration and \<^verbatim>\<open>d[key] = value\<close> on a parsed value.\<close>

fun dict_get :: "json \<Rightarrow> string \<Rightarrow> json \<Rightarrow> py_exn + json" where
  "dict_get (JObj kvs) k dflt = Inr (case map_of kvs k of Some v \<Rightarrow> v | None \<Rightarrow> dflt)"
| "dict_get v k dflt =
     Inl (AttributeError ([CHR 0x27] @ type_name v @ [CHR 0x27] @ '' object has no attribute ''
            @ [CHR 0x27] @ ''get'' @ [CHR 0x27]))"

fun py_iter :: "json \<Rightarrow> py_exn + json list" where
  "py_iter (JArr xs) = Inr xs"
| "py_iter (JObj kvs) = Inr (map (\<lambda>kv. JStr (fst kv)) kvs)"
| "py_iter (JStr s) = Inr (map (\<lambda>c. JStr [c]) s)"
| "py_iter v = Inl (TypeError ([CHR 0x27] @ type_name v @ [CHR 0x27] @ '' object is not iterable''))"

fun set_items :: "json \<Rightarrow> (string \<times> json) list \<Rightarrow> py_exn + flashcard" where
  "set_items (JObj kvs) items = Inr (fold (\<lambda>kv d. AList.update (fst kv) (snd kv) d) items kvs)"
| "set_items (JArr xs) items = Inl (TypeError ''list indices must be integers or slices, not str'')"
| "set_items v items =
     Inl (TypeError ([CHR 0x27] @ type_name v @ [CHR 0x27] @ '' object does not support item assignment''))"

text \<open>
  The tagging loop: item \<open>index\<close> of the batch gets its id, the batch id, the agent id
  and the clock reading \<open>created_at index\<close>.
\<close>

fun tag_loop ::
  "string \<Rightarrow> int \<Rightarrow> (nat \<Rightarrow> string) \<Rightarrow> nat \<Rightarrow> json list \<Rightarrow> py_exn + flashcard list" where
  "tag_loop bid self_agent_id created_at index [] = Inr []"
| "tag_loop bid self_agent_id created_at index (flashcard # rest) =
     (case set_items flashcard
             [(''id'', JStr (bid @ ''_'' @ str_nat (index + 1))),
              (''batch_id'', JStr bid),
              (''agent_id'', JInt self_agent_id),
              (''created_at'', JStr (created_at index))] of
        Inl e \<Rightarrow> Inl e
      | Inr tagged \<Rightarrow>
          (case tag_loop bid self_agent_id created_at (index + 1) rest of
             Inl e \<Rightarrow> Inl e
           | Inr cards \<Rightarrow> Inr (tagged # cards)))"

text \<open>
  The body of the \<^verbatim>\<open>try\<close>. \<open>parsed\<close> is how the provider call, the access to the
  response and \<^verbatim>\<open>json.loads\<close> end: the exception raised, or the parsed value. A
  \<^verbatim>\<open>flashcards\<close> value that is an empty dict or an empty string passes the loop
  untouched and is stored as it is; it holds no item and stands here as the empty list.
\<close>

definition parse_flashcards ::
  "int \<Rightarrow> (nat \<Rightarrow> string) \<Rightarrow> flashcard_batch \<Rightarrow> (py_exn + json) \<Rightarrow> py_exn + flashcard list" where
  "parse_flashcards self_agent_id created_at batch parsed =
     (case parsed of
        Inl e \<Rightarrow> Inl e
      | Inr flashcards_data \<Rightarrow>
          (case dict_get flashcards_data ''flashcards'' (JArr []) of
             Inl e \<Rightarrow> Inl e
           | Inr flashcards_value \<Rightarrow>
               (case py_iter flashcards_value of
                  Inl e \<Rightarrow> Inl e
                | Inr items \<Rightarrow> tag_loop (batch_id batch) self_agent_id created_at 0 items)))"

text \<open>The three \<^verbatim>\<open>except\<close> clauses: each sets the status and the message.\<close>

fun batch_error_message :: "py_exn \<Rightarrow> string" where
  "batch_error_message (JSONDecodeError m) = ''Erro ao parsear resposta JSON: '' @ m"
| "batch_error_message e = exn_str e"

text \<open>
  The coroutine runs to its only suspension point, the provider call
  (\<open>worker_start\<close>: the event \<^verbatim>\<open>processing\<close> at 5), and from the provider's answer to
  its end (\<open>worker_finish\<close>). \<open>generate_flashcards_batch\<close> is the whole call.
\<close>

definition worker_start :: "bool \<Rightarrow> int \<Rightarrow> flashcard_batch \<Rightarrow> int \<Rightarrow> progress_event list" where
  "worker_start progress_callback self_agent_id batch total_batches =
     emit progress_callback self_agent_id batch total_batches ''processing'' 5"

definition worker_finish ::
  "bool \<Rightarrow> int \<Rightarrow> (nat \<Rightarrow> string) \<Rightarrow> flashcard_batch \<Rightarrow> int \<Rightarrow> (py_exn + json) \<Rightarrow>
     flashcard_batch \<times> progress_event list" where
  "worker_finish progress_callback self_agent_id created_at batch total_batches parsed =
     (case parse_flashcards self_agent_id created_at batch parsed of
        Inr cards \<Rightarrow>
          (batch\<lparr>flashcards := cards, status := ''completed''\<rparr>,
           emit progress_callback self_agent_id batch total_batches ''completed'' 100)
      | Inl exc \<Rightarrow>
          (batch\<lparr>status := ''error'', error_message := Some (batch_error_message exc)\<rparr>,
           emit progress_callback self_agent_id batch total_batches ''error'' 100))"

definition generate_flashcards_batch ::
  "bool \<Rightarrow> int \<Rightarrow> (nat \<Rightarrow> string) \<Rightarrow> flashcard_batch \<Rightarrow> int \<Rightarrow> (py_exn + json) \<Rightarrow>
     flashcard_batch \<times> progress_event list" where
  "generate_flashcards_batch progress_callback self_agent_id created_at batch total_batches parsed =
     (let started = worker_start progress_callback self_agent_id batch total_batches;
          (result, finished) =
             worker_finish progress_callback self_agent_id created_at batch total_batches parsed
      in (result, started @ finished))"

section \<open>The orchestrator\<close>

text \<open>
  \<^verbatim>\<open>MultiAgentFlashcardGenerator.generate_flashcards_parallel\<close>. Its messages are
  Portuguese; a letter outside ASCII is written by its code point.
\<close>

definition msg_unavailable :: string where
  "msg_unavailable = ''Servi'' @ [CHR 0xE7] @ ''o de IA indispon''
                       @ [CHR 0xED] @ ''vel no momento''"

definition msg_not_positive :: string where
  "msg_not_positive = ''Quantidade de flashcards deve ser positiva''"

definition msg_no_batches :: string where
  "msg_no_batches = ''N'' @ [CHR 0xE3] @ ''o foi poss'' @ [CHR 0xED]
                      @ ''vel criar lotes de flashcards''"

definition msg_failed :: string where
  "msg_failed = ''Falha na gera'' @ [CHR 0xE7, CHR 0xE3] @ ''o de flashcards''"

definition msg_critical :: string where
  "msg_critical = ''Erro cr'' @ [CHR 0xED] @ ''tico: ''"

text \<open>
  The dict the call returns. The processing time is the difference of the two clock
  readings, in the clock's unit.
\<close>

record success_result =
  res_flashcards :: "flashcard list"
  res_topic :: string
  res_count :: nat
  res_difficulty :: string
  res_processing_time :: int
  res_agents_used :: nat
  res_batches_completed :: nat
  res_batches_failed :: nat

datatype generation_result =
    Rejected string
  | Success success_result
  | Failure string nat "string list"
  | Critical string string

fun success :: "generation_result \<Rightarrow> bool" where
  "success (Success r) = True"
| "success r = False"

fun result_flashcards :: "generation_result \<Rightarrow> flashcard list" where
  "result_flashcards (Success r) = res_flashcards r"
| "result_flashcards r = []"

text \<open>
  What the call reads from outside: whether a provider is configured, the identifiers
  \<^verbatim>\<open>uuid4\<close> draws, the outcome of the topic decomposition, the provider's outcome for
  the batch at each position, the clock, and whether a progress callback was passed.
\<close>

record generation_env =
  env_configured :: bool
  env_request_uuid :: string
  env_batch_uuid :: "nat \<Rightarrow> string"
  env_decomposed :: "py_exn + json"
  env_provider :: "nat \<Rightarrow> py_exn + json"
  env_created_at :: "nat \<Rightarrow> nat \<Rightarrow> string"
  env_started :: int
  env_ended :: int
  env_callback :: bool

text \<open>
  The pool: \<^verbatim>\<open>self.agents\<close> holds the agents 1 to \<^verbatim>\<open>max_agents\<close>, and a batch
  goes to \<^verbatim>\<open>self.agents[batch.agent_id - 1]\<close>.
\<close>

definition agents :: "int \<Rightarrow> int list" where
  "agents max_agents = map (\<lambda>i. int i + 1) [0..<nat max_agents]"

definition agent_for :: "int \<Rightarrow> flashcard_batch \<Rightarrow> py_exn + int" where
  "agent_for max_agents batch =
     (let n = int (length (agents max_agents));
          i = agent_id batch - 1;
          j = (if i < 0 then n + i else i)
      in if 0 \<le> j \<and> j < n then Inr (agents max_agents ! nat j)
         else Inl (IndexError ''list index out of range''))"

fun agents_for :: "int \<Rightarrow> flashcard_batch list \<Rightarrow> py_exn + int list" where
  "agents_for max_agents [] = Inr []"
| "agents_for max_agents (b # bs) =
     (case agent_for max_agents b of
        Inl e \<Rightarrow> Inl e
      | Inr a \<Rightarrow> (case agents_for max_agents bs of Inl e \<Rightarrow> Inl e | Inr as \<Rightarrow> Inr (a # as)))"

text \<open>
  The tasks. \<^verbatim>\<open>asyncio.gather\<close> runs one task for each batch and returns their
  results in the order of the tasks, whatever the order in which they finish. A task is
  created, then waits for the env_provider, then is done with the batch it returns. The
  event loop resumes one task at a time: a schedule is the list of the positions of the
  tasks it resumes, in any order and with any repetition. \<open>gather\<close> has a result once
  every task is done; on a schedule that leaves a task unfinished it has none.
\<close>

datatype task = Created | Awaiting | Done flashcard_batch

record run_state =
  run_tasks :: "task list"
  run_events :: "progress_event list"

definition advance ::
  "generation_env \<Rightarrow> flashcard_batch list \<Rightarrow> int list \<Rightarrow> nat \<Rightarrow> run_state \<Rightarrow> run_state" where
  "advance env bs workers i s =
     (if i < length (run_tasks s) then
        (case run_tasks s ! i of
           Created \<Rightarrow>
             s\<lparr>run_tasks := (run_tasks s)[i := Awaiting],
               run_events := run_events s
                 @ worker_start (env_callback env) (workers ! i) (bs ! i) (int (length bs))\<rparr>
         | Awaiting \<Rightarrow>
             (let (result, finished) =
                    worker_finish (env_callback env) (workers ! i) (env_created_at env i)
                      (bs ! i) (int (length bs)) (env_provider env i)
              in s\<lparr>run_tasks := (run_tasks s)[i := Done result], run_events := run_events s @ finished\<rparr>)
         | Done result \<Rightarrow> s)
      else s)"

definition run_schedule ::
  "generation_env \<Rightarrow> flashcard_batch list \<Rightarrow> int list \<Rightarrow> nat list \<Rightarrow> run_state" where
  "run_schedule env bs workers schedule =
     fold (advance env bs workers) schedule
       \<lparr>run_tasks = replicate (length bs) Created, run_events = []\<rparr>"

fun task_result :: "task \<Rightarrow> flashcard_batch option" where
  "task_result (Done result) = Some result"
| "task_result t = None"

fun gather :: "task list \<Rightarrow> flashcard_batch list option" where
  "gather [] = Some []"
| "gather (t # ts) =
     (case task_result t of
        None \<Rightarrow> None
      | Some r \<Rightarrow> (case gather ts of None \<Rightarrow> None | Some rs \<Rightarrow> Some (r # rs)))"

text \<open>
  The loop over \<^verbatim>\<open>zip(state.batches, results)\<close>. A result is the batch a task
  returned, or the exception that escaped it: \<^verbatim>\<open>gather\<close> is called with
  \<^verbatim>\<open>return_exceptions=True\<close>. It returns the batches, the flashcards collected and
  the events sent for escaped exceptions.
\<close>

fun collect ::
  "bool \<Rightarrow> int \<Rightarrow> (flashcard_batch \<times> (py_exn + flashcard_batch)) list \<Rightarrow>
     flashcard_batch list \<times> flashcard list \<times> progress_event list" where
  "collect cb total_batches [] = ([], [], [])"
| "collect cb total_batches ((batch, Inl exc) # rest) =
     (let failed = batch\<lparr>status := ''error'', error_message := Some (exn_str exc)\<rparr>;
          (completed_batches, cards, evs) = collect cb total_batches rest
      in (failed # completed_batches, cards,
          emit cb (agent_id failed) failed total_batches ''error'' 100 @ evs))"
| "collect cb total_batches ((batch, Inr result) # rest) =
     (let (completed_batches, cards, evs) = collect cb total_batches rest
      in (result # completed_batches,
          (if status result = ''completed'' then flashcards result else []) @ cards,
          evs))"

definition outcome ::
  "string \<Rightarrow> string \<Rightarrow> int \<Rightarrow> int \<Rightarrow> flashcard_batch list \<Rightarrow> flashcard list \<Rightarrow> generation_result" where
  "outcome topic_arg difficulty_arg started ended completed_batches cards =
     (let successful_batches = filter (\<lambda>b. status b = ''completed'') completed_batches;
          failed_batches = filter (\<lambda>b. status b = ''error'') completed_batches
      in if cards \<noteq> [] then
           Success \<lparr>res_flashcards = cards, res_topic = topic_arg, res_count = length cards,
                    res_difficulty = difficulty_arg, res_processing_time = ended - started,
                    res_agents_used = length successful_batches,
                    res_batches_completed = length successful_batches,
                    res_batches_failed = length failed_batches\<rparr>
         else
           Failure msg_failed (length failed_batches)
             (map the (filter (\<lambda>m. m \<noteq> None \<and> m \<noteq> Some [])
                        (map error_message failed_batches))))"

fun on_exception :: "string \<Rightarrow> py_exn \<Rightarrow> generation_result" where
  "on_exception topic_arg (RuntimeError m) = Rejected msg_unavailable"
| "on_exception topic_arg exc = Critical (msg_critical @ exn_str exc) topic_arg"

definition initial_state ::
  "generation_env \<Rightarrow> string \<Rightarrow> int \<Rightarrow> string \<Rightarrow> string option \<Rightarrow> string \<Rightarrow>
     multi_agent_flashcard_state" where
  "initial_state env topic_arg count_arg difficulty_arg subject_arg user_id_arg =
     \<lparr>request_id = env_request_uuid env, state_topic = topic_arg,
      total_count = count_arg, state_difficulty = difficulty_arg,
      subject = subject_arg, user_id = user_id_arg, batches = [],
      completed_flashcards = [], state_status = ''initializing'',
      start_time = env_started env, end_time = None, agents_count = 1\<rparr>"

definition generate_flashcards_parallel ::
  "generation_env \<Rightarrow> int \<Rightarrow> nat list \<Rightarrow> string \<Rightarrow> int \<Rightarrow> string \<Rightarrow> string option \<Rightarrow> string \<Rightarrow>
     (generation_result \<times> progress_event list) option" where
  "generate_flashcards_parallel env max_agents schedule topic_arg count_arg difficulty_arg
       subject_arg user_id_arg =
     (if \<not> env_configured env then Some (Rejected msg_unavailable, [])
      else if count_arg \<le> 0 then Some (Rejected msg_not_positive, [])
      else
        let st = initial_state env topic_arg count_arg difficulty_arg subject_arg user_id_arg
        in case create_batches (env_batch_uuid env) (env_configured env) (env_decomposed env) max_agents st of
             Inl exc \<Rightarrow> Some (on_exception topic_arg exc, [])
           | Inr (bs, st1) \<Rightarrow>
               if bs = [] then Some (Rejected msg_no_batches, [])
               else
                 let total_batches = int (length bs);
                     queued = concat (map (\<lambda>b. emit (env_callback env) (agent_id b) b
                                               total_batches ''queued'' 0) bs)
                 in case agents_for max_agents bs of
                      Inl exc \<Rightarrow> Some (on_exception topic_arg exc, queued)
                    | Inr workers \<Rightarrow>
                        let s = run_schedule env bs workers schedule in
                        (case gather (run_tasks s) of
                           None \<Rightarrow> None
                         | Some results \<Rightarrow>
                             let (completed_batches, cards, evs) =
                                   collect (env_callback env) total_batches
                                     (zip bs (map Inr results))
                             in Some (outcome topic_arg difficulty_arg (env_started env)
                                        (env_ended env) completed_batches cards,
                                      queued @ run_events s @ evs)))"

text \<open>
  The agent a flashcard carries, and a schedule that resumes every task twice, in the
  order of the batches: the one the event loop follows when no task is delayed.
\<close>

definition item_agent :: "flashcard \<Rightarrow> int" where
  "item_agent flashcard = (case map_of flashcard ''agent_id'' of Some (JInt a) \<Rightarrow> a | _ \<Rightarrow> 0)"

definition in_order :: "nat \<Rightarrow> nat list" where
  "in_order n = [0..<n] @ [0..<n]"

text \<open>
  What the task at each position returns: the batch of that position, finished with the
  provider's outcome for that position.
\<close>

definition batch_results ::
  "generation_env \<Rightarrow> flashcard_batch list \<Rightarrow> int list \<Rightarrow> flashcard_batch list" where
  "batch_results env bs workers =
     map (\<lambda>i. fst (worker_finish (env_callback env) (workers ! i) (env_created_at env i)
                      (bs ! i) (int (length bs)) (env_provider env i)))
         [0..<length bs]"

fun rank :: "task \<Rightarrow> nat" where
  "rank Created = 0"
| "rank Awaiting = 1"
| "rank (Done result) = 2"

text \<open>
  \<open>task_ok\<close>: every task that is done holds the result of its own position.
\<close>

definition task_ok :: "generation_env \<Rightarrow> flashcard_batch list \<Rightarrow> int list \<Rightarrow> run_state \<Rightarrow> bool" where
  "task_ok env bs workers s \<longleftrightarrow>
     length (run_tasks s) = length bs \<and>
     (\<forall>i < length bs. \<forall>r. run_tasks s ! i = Done r \<longrightarrow> r = batch_results env bs workers ! i)"


text \<open>
  The result computed without any schedule: the batches finished one after the other, in
  the order in which they were planned.
\<close>

definition sequential_result ::
  "generation_env \<Rightarrow> int \<Rightarrow> string \<Rightarrow> int \<Rightarrow> string \<Rightarrow> string option \<Rightarrow> string \<Rightarrow> generation_result" where
  "sequential_result env max_agents topic_arg count_arg difficulty_arg subject_arg user_id_arg =
     (if \<not> env_configured env then Rejected msg_unavailable
      else if count_arg \<le> 0 then Rejected msg_not_positive
      else
        case create_batches (env_batch_uuid env) (env_configured env) (env_decomposed env) max_agents
               (initial_state env topic_arg count_arg difficulty_arg subject_arg user_id_arg) of
          Inl exc \<Rightarrow> on_exception topic_arg exc
        | Inr (bs, st1) \<Rightarrow>
            if bs = [] then Rejected msg_no_batches
            else
              case agents_for max_agents bs of
                Inl exc \<Rightarrow> on_exception topic_arg exc
              | Inr workers \<Rightarrow>
                  outcome topic_arg difficulty_arg (env_started env) (env_ended env)
                    (batch_results env bs workers)
                    (concat (map (\<lambda>r. if status r = ''completed'' then flashcards r else [])
                               (batch_results env bs workers))))"


text \<open>
  A run of three batches in which the provider fails for the second batch and answers
  one flashcard for each of the others.
\<close>

definition demo_env :: generation_env where
  "demo_env =
     \<lparr>env_configured = True, env_request_uuid = ''req'',
      env_batch_uuid = (\<lambda>k. ''batch'' @ str_nat k),
      env_decomposed = Inr (JArr [JStr ''Light reactions'', JStr ''Calvin cycle'']),
      env_provider =
        (\<lambda>i. if i = 1 then Inl (OtherException ''provider fault'')
              else Inr (JObj [(''flashcards'', JArr [JObj [(''front'', JStr ''Q''),
                                                          (''back'', JStr ''A'')]])])),
      env_created_at = (\<lambda>i k. ''2025-01-01T00:00:00''),
      env_started = 0, env_ended = 5, env_callback = True\<rparr>"


text \<open>The three batches the planner returns in that run.\<close>

definition demo_batches :: "flashcard_batch list" where
  "demo_batches =
     [\<lparr>batch_id = ''batch0'', topic = ''Photosynthesis'', subtopic = ''Light reactions'',
       count = 1, difficulty = ''medium'', agent_id = 1, flashcards = [],
       status = ''pending'', error_message = None\<rparr>,
      \<lparr>batch_id = ''batch1'', topic = ''Photosynthesis'', subtopic = ''Calvin cycle'',
       count = 1, difficulty = ''medium'', agent_id = 2, flashcards = [],
       status = ''pending'', error_message = None\<rparr>,
      \<lparr>batch_id = ''batch2'', topic = ''Photosynthesis'',
       subtopic = ''Photosynthesis - Parte 3'',
       count = 1, difficulty = ''medium'', agent_id = 3, flashcards = [],
       status = ''pending'', error_message = None\<rparr>]"


section \<open>The service entry point\<close>

text \<open>
  The process state of \<^verbatim>\<open>ai_service.py\<close>: the table \<^verbatim>\<open>progress_store\<close> from
  operation ids to tracker objects. The objects live in a heap, the table holds
  references, and \<open>next_ref\<close> is the next reference to hand out.
\<close>

record process_state =
  progress_store :: "(string \<times> nat) list"
  trackers :: "nat \<Rightarrow> progress_tracker"
  next_ref :: nat

text \<open>\<^verbatim>\<open>ProgressTracker.__init__\<close>: the new object registers itself in the table.\<close>

definition progress_tracker_init ::
  "string \<Rightarrow> int \<Rightarrow> int \<Rightarrow> process_state \<Rightarrow> nat \<times> process_state" where
  "progress_tracker_init op_id n now w =
     (let r = next_ref w in
      (r, w\<lparr>progress_store := AList.update op_id r (progress_store w),
            trackers := (trackers w)(r := new_tracker op_id n now),
            next_ref := r + 1\<rparr>))"

text \<open>
  The closures of \<^verbatim>\<open>start_flashcard_generation\<close> hold the tracker object \<open>r\<close>.
  \<open>handle_progress\<close> is the progress callback; \<open>replay\<close> gives it the events of a
  run in the order in which they were sent.
\<close>

definition handle_progress ::
  "nat \<Rightarrow> int \<Rightarrow> progress_event \<Rightarrow> process_state \<Rightarrow> py_exn + process_state" where
  "handle_progress r now ev w =
     (let t = trackers w r;
          t1 = (case ev_total ev of None \<Rightarrow> t | Some n \<Rightarrow> set_total_agents n t)
      in case update_agent_status now (ev_agent ev) (ev_status ev) (ev_subtopic ev)
                (ev_progress ev) t1 of
           Inl exc \<Rightarrow> Inl exc
         | Inr t2 \<Rightarrow> Inr (w\<lparr>trackers := (trackers w)(r := t2)\<rparr>))"

fun replay :: "nat \<Rightarrow> int \<Rightarrow> progress_event list \<Rightarrow> process_state \<Rightarrow> py_exn + process_state" where
  "replay r now [] w = Inr w"
| "replay r now (ev # evs) w =
     (case handle_progress r now ev w of Inl exc \<Rightarrow> Inl exc | Inr w' \<Rightarrow> replay r now evs w')"

fun finalize_loop ::
  "nat \<Rightarrow> int \<Rightarrow> string \<Rightarrow> string \<Rightarrow> int \<Rightarrow> int list \<Rightarrow> process_state \<Rightarrow> py_exn + process_state" where
  "finalize_loop r now st topic_arg progress [] w = Inr w"
| "finalize_loop r now st topic_arg progress (agent_index # rest) w =
     (case update_agent_status now agent_index st topic_arg progress (trackers w r) of
        Inl exc \<Rightarrow> Inl exc
      | Inr t \<Rightarrow> finalize_loop r now st topic_arg progress rest (w\<lparr>trackers := (trackers w)(r := t)\<rparr>))"

definition finalize_agents ::
  "nat \<Rightarrow> int \<Rightarrow> string \<Rightarrow> string \<Rightarrow> int \<Rightarrow> process_state \<Rightarrow> py_exn + process_state" where
  "finalize_agents r now st topic_arg progress w =
     finalize_loop r now st topic_arg progress [1..total_agents (trackers w r)] w"

text \<open>
  \<^verbatim>\<open>FlashcardRequest\<close>, and \<^verbatim>\<open>generate_flashcards_single_agent\<close>. Whether the
  single agent exists and what its \<^verbatim>\<open>chat\<close> returns are read from outside. The
  only caller of the service is the endpoint, which builds the request from the body it
  received: \<open>validate_request\<close> below is the only source of a request, and it keeps
  the count between 1 and 30.
\<close>

record flashcard_request =
  req_topic :: string
  req_subject :: string
  req_user_id :: string
  req_difficulty :: string
  req_count :: int

datatype chat_result = ChatSucceeded json | ChatFailed "string option"

datatype single_result =
    SingleFlashcards json string string int string
  | SingleError string

fun single_success :: "single_result \<Rightarrow> bool" where
  "single_success (SingleFlashcards response t s c d) = True"
| "single_success (SingleError m) = False"

definition generate_flashcards_single_agent ::
  "bool \<Rightarrow> (py_exn + chat_result) \<Rightarrow> flashcard_request \<Rightarrow> py_exn + single_result" where
  "generate_flashcards_single_agent agent_available chat request =
     (if \<not> agent_available then Inr (SingleError ''LangGraph agent not available'')
      else case chat of
             Inl exc \<Rightarrow> Inl exc
           | Inr (ChatSucceeded response) \<Rightarrow>
               Inr (SingleFlashcards response (req_topic request) (req_subject request)
                      (req_count request) (req_difficulty request))
           | Inr (ChatFailed None) \<Rightarrow> Inr (SingleError ''Erro desconhecido'')
           | Inr (ChatFailed (Some m)) \<Rightarrow> Inr (SingleError m))"

text \<open>
  What \<^verbatim>\<open>start_flashcard_generation\<close> reads from outside: the pool size of the
  generator when \<^verbatim>\<open>get_multi_agent_generator\<close> returns one, the identifier drawn for
  the operation, the inputs of the parallel run and its schedule, the single agent, and
  the clock.
\<close>

record service_env =
  generator :: "int option"
  operation_uuid :: string
  generation :: generation_env
  resumptions :: "nat list"
  lia_agent :: bool
  lia_chat :: "py_exn + chat_result"
  service_clock :: int

record parallel_response =
  out_flashcards :: "flashcard list"
  out_topic :: string
  out_subject :: string
  out_count :: nat
  out_difficulty :: string
  out_processing_time :: int
  out_agents_used :: nat
  out_operation_id :: string

datatype service_response =
    ParallelResponse parallel_response
  | SingleResponse single_result string
  | ErrorResponse string string

definition msg_try_again :: string where
  "msg_try_again = ''Falha ao gerar flashcards no momento. Tente novamente em instantes.''"

text \<open>
  The fallback and its bookkeeping: the single agent runs, then every agent of the
  tracker is set to the final status. An exception here is raised to the caller on
  the path without a generator, and caught on the path with one.
\<close>

definition run_single ::
  "service_env \<Rightarrow> flashcard_request \<Rightarrow> nat \<Rightarrow> string \<Rightarrow> process_state \<Rightarrow>
     (py_exn + service_response) \<times> process_state" where
  "run_single senv request r op_id w =
     (case generate_flashcards_single_agent (lia_agent senv) (lia_chat senv) request of
        Inl exc \<Rightarrow> (Inl exc, w)
      | Inr result \<Rightarrow>
          (case finalize_agents r (service_clock senv)
                  (if single_success result then ''completed'' else ''error'')
                  (req_topic request) 100 w of
             Inl exc \<Rightarrow> (Inl exc, w)
           | Inr w' \<Rightarrow> (Inr (SingleResponse result op_id), w')))"

definition on_failure ::
  "service_env \<Rightarrow> flashcard_request \<Rightarrow> nat \<Rightarrow> string \<Rightarrow>
     (py_exn + service_response) \<times> process_state \<Rightarrow> (py_exn + service_response) \<times> process_state" where
  "on_failure senv request r op_id attempt =
     (case attempt of
        (Inr response, w) \<Rightarrow> (Inr response, w)
      | (Inl exc, w) \<Rightarrow>
          (case finalize_agents r (service_clock senv) ''error'' (req_topic request) 100 w of
             Inl exc' \<Rightarrow> (Inl exc', w)
           | Inr w' \<Rightarrow> (Inr (ErrorResponse msg_try_again op_id), w')))"

text \<open>
  \<^verbatim>\<open>start_flashcard_generation\<close>, in two parts: the tracker is created first, for
  every request; \<open>generate_with_tracker\<close> is everything that follows.
\<close>

definition generate_with_tracker ::
  "service_env \<Rightarrow> flashcard_request \<Rightarrow> string \<Rightarrow> nat \<Rightarrow> process_state \<Rightarrow>
     ((py_exn + service_response) \<times> process_state) option" where
  "generate_with_tracker senv request op_id r w1 =
     (case generator senv of
        None \<Rightarrow>
          (case handle_progress r (service_clock senv)
                  \<lparr>ev_agent = 1, ev_status = ''processing'', ev_subtopic = req_topic request,
                   ev_progress = 10, ev_total = Some 1\<rparr> w1 of
             Inl exc \<Rightarrow> Some (Inl exc, w1)
           | Inr w2 \<Rightarrow> Some (run_single senv request r op_id w2))
      | Some max_agents \<Rightarrow>
          (case generate_flashcards_parallel (generation senv) max_agents (resumptions senv)
                  (req_topic request) (req_count request) (req_difficulty request)
                  (Some (req_subject request)) (req_user_id request) of
             None \<Rightarrow> None
           | Some (result, evs) \<Rightarrow>
               Some (on_failure senv request r op_id
                 (case replay r (service_clock senv) evs w1 of
                    Inl exc \<Rightarrow> (Inl exc, w1)
                  | Inr w2 \<Rightarrow>
                      (case result of
                         Success res \<Rightarrow>
                           (Inr (ParallelResponse
                              \<lparr>out_flashcards = res_flashcards res,
                               out_topic = req_topic request,
                               out_subject = req_subject request,
                               out_count = length (res_flashcards res),
                               out_difficulty = req_difficulty request,
                               out_processing_time = res_processing_time res,
                               out_agents_used = res_agents_used res,
                               out_operation_id = op_id\<rparr>), w2)
                       | other \<Rightarrow>
                           (case finalize_agents r (service_clock senv) ''processing''
                                   (req_topic request) 10 w2 of
                              Inl exc \<Rightarrow> (Inl exc, w2)
                            | Inr w3 \<Rightarrow> run_single senv request r op_id w3))))))"

definition start_flashcard_generation ::
  "service_env \<Rightarrow> flashcard_request \<Rightarrow> process_state \<Rightarrow>
     ((py_exn + service_response) \<times> process_state) option" where
  "start_flashcard_generation senv request w =
     (let op_id = ''flashcards_'' @ operation_uuid senv;
          estimated_agents =
            (case generator senv of
               None \<Rightarrow> 1
             | Some max_agents \<Rightarrow> estimate_batches max_agents (req_count request));
          (r, w1) = progress_tracker_init op_id estimated_agents (service_clock senv) w
      in generate_with_tracker senv request op_id r w1)"

text \<open>
  An empty process, a request for five flashcards, and the service as it starts with no
  provider key: the generator exists but no provider is configured, and no single agent.
\<close>

definition empty_process :: process_state where
  "empty_process =
     \<lparr>progress_store = [],
      trackers = (\<lambda>r. \<lparr>operation_id = '''', total_agents = 1, tracker_start_time = 0,
                          completed_agents = 0, agents_status = []\<rparr>),
      next_ref = 0\<rparr>"

definition demo_request :: flashcard_request where
  "demo_request = \<lparr>req_topic = ''Photosynthesis'', req_subject = ''Biology'',
                    req_user_id = ''student'', req_difficulty = ''medium'', req_count = 5\<rparr>"

definition unconfigured_service :: service_env where
  "unconfigured_service =
     \<lparr>generator = Some 4, operation_uuid = ''1a2b3c4d'',
      generation = demo_env\<lparr>env_configured := False\<rparr>,
      resumptions = [], lia_agent = False, lia_chat = Inr (ChatFailed None),
      service_clock = 0\<rparr>"


text \<open>
  The endpoint \<^verbatim>\<open>POST /generate-flashcards\<close>. The body is validated against
  \<^verbatim>\<open>FlashcardRequest\<close> before the handler runs: \<^verbatim>\<open>difficulty\<close> defaults to
  \<^verbatim>\<open>medium\<close>, \<^verbatim>\<open>count\<close> defaults to 5 and is \<^verbatim>\<open>Field(ge=1, le=30)\<close>. A body
  that fails is answered with the validation error and the service is not called.
\<close>

record flashcard_body =
  body_topic :: string
  body_subject :: string
  body_user_id :: string
  body_difficulty :: "string option"
  body_count :: "int option"

definition validate_request :: "flashcard_body \<Rightarrow> py_exn + flashcard_request" where
  "validate_request body =
     (let c = (case body_count body of None \<Rightarrow> 5 | Some n \<Rightarrow> n) in
      if c < 1 then Inl (ValidationError ''Input should be greater than or equal to 1'')
      else if 30 < c then Inl (ValidationError ''Input should be less than or equal to 30'')
      else Inr \<lparr>req_topic = body_topic body, req_subject = body_subject body,
                req_user_id = body_user_id body,
                req_difficulty = (case body_difficulty body of None \<Rightarrow> ''medium'' | Some d \<Rightarrow> d),
                req_count = c\<rparr>)"

definition generate_flashcards_endpoint ::
  "service_env \<Rightarrow> flashcard_body \<Rightarrow> process_state \<Rightarrow>
     ((py_exn + service_response) \<times> process_state) option" where
  "generate_flashcards_endpoint senv body w =
     (case validate_request body of
        Inl exc \<Rightarrow> Some (Inl exc, w)
      | Inr request \<Rightarrow> start_flashcard_generation senv request w)"

text \<open>A body that asks for photosynthesis flashcards, with the count left open.\<close>

definition demo_body :: "int \<Rightarrow> flashcard_body" where
  "demo_body n = \<lparr>body_topic = ''Photosynthesis'', body_subject = ''Biology'',
                   body_user_id = ''student'', body_difficulty = None, body_count = Some n\<rparr>"

section \<open>The progress stream\<close>

text \<open>
  \<^verbatim>\<open>ProgressTracker.get_progress_data\<close> and the generator inside
  \<^verbatim>\<open>stream_progress\<close>. The snapshot keeps the integer fields and the elapsed time as
  a difference of clock readings; the percentage and the estimate of the remaining
  time are floating-point quotients of these and are left out.
\<close>

record progress_data =
  pd_operation_id :: string
  pd_total_agents :: int
  pd_completed_agents :: int
  pd_agents_status :: "(int \<times> agent_slot) list"
  pd_elapsed_time :: int
  pd_status :: string

definition get_progress_data :: "int \<Rightarrow> progress_tracker \<Rightarrow> progress_data" where
  "get_progress_data now t =
     \<lparr>pd_operation_id = operation_id t, pd_total_agents = total_agents t,
      pd_completed_agents = completed_agents t, pd_agents_status = agents_status t,
      pd_elapsed_time = now - tracker_start_time t,
      pd_status = (if completed_agents t = total_agents t then ''completed''
                   else ''in_progress'')\<rparr>"

text \<open>
  \<^verbatim>\<open>json.dumps\<close> of a snapshot: \<^verbatim>\<open>completed_at\<close> is a \<^verbatim>\<open>datetime\<close> once an
  agent reached a terminal status, and \<^verbatim>\<open>json.dumps\<close> refuses one.
\<close>

definition json_dumps :: "progress_data \<Rightarrow> py_exn + progress_data" where
  "json_dumps d =
     (if list_all (\<lambda>p. completed_at (snd p) = None) (pd_agents_status d) then Inr d
      else Inl (TypeError ''Object of type datetime is not JSON serializable''))"

datatype stream_event =
    Connected string
  | Timeout
  | Snapshot progress_data
  | Completed progress_data
  | StreamError string

text \<open>
  Other coroutines change the process whenever the generator is suspended, at an
  \<^verbatim>\<open>asyncio.sleep(1)\<close> or at a \<^verbatim>\<open>yield\<close> of one of its loops:
  \<open>observed env k\<close> is the process state and \<open>observed_clock env k\<close> the clock
  that the generator finds after \<open>k\<close> such suspensions, counted from the first read of
  the table.
\<close>

record stream_env =
  observed :: "nat \<Rightarrow> process_state"
  observed_clock :: "nat \<Rightarrow> int"

definition max_wait :: nat where
  "max_wait = 30"

text \<open>
  The first loop: \<^verbatim>\<open>while operation_id not in progress_store and wait_count <
  max_wait\<close>. It returns the final \<open>wait_count\<close>.
\<close>

function wait_for_operation :: "string \<Rightarrow> stream_env \<Rightarrow> nat \<Rightarrow> nat" where
  "wait_for_operation op_id env wait_count =
     (if map_of (progress_store (observed env wait_count)) op_id = None \<and> wait_count < max_wait
      then wait_for_operation op_id env (wait_count + 1)
      else wait_count)"
  by pat_completeness auto
termination
  by (relation "measure (\<lambda>(op_id, env, wait_count). max_wait - wait_count)") auto

declare wait_for_operation.simps [simp del]

text \<open>
  The generator is suspended at one of its \<^verbatim>\<open>yield\<close>s, or has not started, or has
  finished. \<open>resume\<close> runs it to the next \<^verbatim>\<open>yield\<close> and gives the event, or \<open>None\<close>
  when it ends. \<open>AtSnapshot r k\<close>: inside the second loop, holding the tracker object
  \<open>r\<close>, after \<open>k\<close> suspensions.
\<close>

datatype stream_state =
    NotStarted
  | AtConnected
  | AtTimeout
  | AtSnapshot nat nat
  | AtCompleted nat
  | AtError
  | Finished

definition stream_loop :: "stream_env \<Rightarrow> nat \<Rightarrow> nat \<Rightarrow> stream_event option \<times> stream_state" where
  "stream_loop env r k =
     (let t = trackers (observed env k) r in
      if completed_agents t < total_agents t then
        (case json_dumps (get_progress_data (observed_clock env (k + 1))
                            (trackers (observed env (k + 1)) r)) of
           Inl exc \<Rightarrow> (Some (StreamError (exn_str exc)), AtError)
         | Inr d \<Rightarrow> (Some (Snapshot d), AtSnapshot r (k + 1)))
      else
        (case json_dumps (get_progress_data (observed_clock env k) t) of
           Inl exc \<Rightarrow> (Some (StreamError (exn_str exc)), AtError)
         | Inr d \<Rightarrow> (Some (Completed d), AtCompleted k)))"

fun resume :: "string \<Rightarrow> stream_env \<Rightarrow> stream_state \<Rightarrow> stream_event option \<times> stream_state" where
  "resume op_id env NotStarted = (Some (Connected op_id), AtConnected)"
| "resume op_id env AtConnected =
     (let k = wait_for_operation op_id env 0 in
      case map_of (progress_store (observed env k)) op_id of
        None \<Rightarrow> (Some Timeout, AtTimeout)
      | Some r \<Rightarrow> stream_loop env r k)"
| "resume op_id env AtTimeout = (None, Finished)"
| "resume op_id env (AtSnapshot r k) = stream_loop env r (k + 1)"
| "resume op_id env (AtCompleted k) = (None, Finished)"
| "resume op_id env AtError = (None, Finished)"
| "resume op_id env Finished = (None, Finished)"

text \<open>
  What the generator does to the process: after the final snapshot it removes the
  entry of the operation from the table, at the step that ends it.
\<close>

fun release :: "string \<Rightarrow> stream_state \<Rightarrow> process_state \<Rightarrow> process_state" where
  "release op_id (AtCompleted k) w = w\<lparr>progress_store := AList.delete op_id (progress_store w)\<rparr>"
| "release op_id st w = w"

text \<open>
  The events of the stream: the consumer resumes the generator until it ends, at most
  \<open>fuel\<close> times. \<open>stream_ended\<close>: the generator has ended within \<open>fuel\<close> resumptions.
\<close>

fun stream_events :: "nat \<Rightarrow> string \<Rightarrow> stream_env \<Rightarrow> stream_state \<Rightarrow> stream_event list" where
  "stream_events 0 op_id env st = []"
| "stream_events (Suc fuel) op_id env st =
     (case resume op_id env st of
        (None, st') \<Rightarrow> []
      | (Some ev, st') \<Rightarrow> ev # stream_events fuel op_id env st')"

fun stream_ended :: "nat \<Rightarrow> string \<Rightarrow> stream_env \<Rightarrow> stream_state \<Rightarrow> bool" where
  "stream_ended 0 op_id env st = False"
| "stream_ended (Suc fuel) op_id env st =
     (case resume op_id env st of
        (None, st') \<Rightarrow> True
      | (Some ev, st') \<Rightarrow> stream_ended fuel op_id env st')"

text \<open>A process in which no operation is ever registered.\<close>

definition idle_env :: stream_env where
  "idle_env = \<lparr>observed = (\<lambda>k. empty_process), observed_clock = (\<lambda>k. int k)\<rparr>"

section \<open>Properties of the batch planner\<close>

lemma pad_list_closed:
  "pad_list t c xs = xs @ map (\<lambda>i. JStr (generic_label t (i + 1))) [length xs..<nat c]"
proof (induction t c xs rule: pad_list.induct)
  case (1 t c xs)
  show ?case
  proof (cases "int (length xs) < c")
    case True
    then have lt: "length xs < nat c" by linarith
    have "pad_list t c xs = pad_list t c (xs @ [JStr (generic_label t (length xs + 1))])"
      using True by (subst pad_list.simps) simp
    also have "\<dots> = (xs @ [JStr (generic_label t (length xs + 1))])
        @ map (\<lambda>i. JStr (generic_label t (i + 1))) [Suc (length xs)..<nat c]"
      using "1.IH"[OF True] by simp
    also have "\<dots> = xs @ map (\<lambda>i. JStr (generic_label t (i + 1))) [length xs..<nat c]"
      using lt by (simp add: upt_conv_Cons)
    finally show ?thesis .
  next
    case False
    then have "nat c \<le> length xs" by linarith
    then show ?thesis using False by (subst pad_list.simps) simp
  qed
qed

lemma length_pad_list: "length (pad_list t c xs) = max (length xs) (nat c)"
  by (simp add: pad_list_closed)

lemma list_all_pad_list: "list_all is_label xs \<Longrightarrow> list_all is_label (pad_list t c xs)"
  by (auto simp: pad_list_closed list_all_iff)

lemma generate_subtopics_usable:
  assumes "usable_decomposition configured decomposed" and "0 \<le> cnt"
  shows "\<exists>ys. generate_subtopics configured decomposed t cnt = Inr (JArr ys)
           \<and> length ys = nat cnt \<and> list_all is_label ys"
proof (cases configured)
  case False
  then show ?thesis
    by (simp add: generate_subtopics_def list_all_iff)
next
  case True
  define xs where "xs = (case decomposed of Inl exc \<Rightarrow> [] | Inr (JArr zs) \<Rightarrow> zs | Inr v \<Rightarrow> [])"
  have sub: "(case decomposed of Inl exc \<Rightarrow> JArr [] | Inr v \<Rightarrow> v) = JArr xs"
    and lab: "list_all is_label xs"
    using assms(1) True
    by (auto simp: usable_decomposition_def xs_def split: sum.splits json.splits)
  have pad: "pad_subtopics t cnt (JArr xs) = Inr (JArr (pad_list t cnt xs))"
    by (cases "int (length xs) < cnt") (simp_all add: pad_subtopics_def pad_list.simps[of t cnt xs])
  have "generate_subtopics configured decomposed t cnt
          = Inr (JArr (slice_to (pad_list t cnt xs) cnt))"
    using True by (simp add: generate_subtopics_def sub pad)
  moreover have "length (slice_to (pad_list t cnt xs) cnt) = nat cnt"
    using assms(2) by (simp add: slice_to_def length_pad_list)
  moreover have "list_all is_label (slice_to (pad_list t cnt xs) cnt)"
    using list_all_pad_list[OF lab, of t cnt] assms(2)
    by (auto simp: slice_to_def list_all_iff dest: in_set_takeD)
  ultimately show ?thesis by blast
qed

lemma sum_list_indicator:
  "sum_list (map (\<lambda>i. if i < r then (1::int) else 0) [0..<w]) = int (min r w)"
  by (induction w) auto

lemma sum_list_shares:
  assumes "0 < w"
  shows "sum_list (map (\<lambda>i. per + (if int i < t mod int w then 1 else 0)) [0..<w])
           = int w * per + t mod int w"
proof -
  have r: "nat (t mod int w) \<le> w" using assms by (simp add: nat_le_iff less_imp_le)
  have eq: "(\<lambda>i. if int i < t mod int w then (1::int) else 0)
              = (\<lambda>i. if i < nat (t mod int w) then 1 else 0)"
    using assms by (auto simp: fun_eq_iff)
  have "sum_list (map (\<lambda>i. per + (if int i < t mod int w then 1 else 0)) [0..<w])
          = sum_list (map (\<lambda>i. per) [0..<w])
            + sum_list (map (\<lambda>i. if int i < t mod int w then (1::int) else 0) [0..<w])"
    by (simp add: sum_list_addf)
  also have "\<dots> = int w * per + int (nat (t mod int w))"
    using r by (simp add: sum_list_triv eq sum_list_indicator min_def)
  finally show ?thesis using assms by simp
qed


lemma share_positive:
  fixes w t :: int
  assumes "1 \<le> w" and "w \<le> t"
  shows "1 \<le> t div w"
proof -
  have "0 < t div w" using assms pos_imp_zdiv_pos_iff[of w t] by simp
  then show ?thesis by simp
qed

lemma is_label_JStr: "is_label v \<Longrightarrow> \<exists>s. v = JStr s"
  by (cases v) simp_all

lemma batches_loop_labelled:
  assumes "0 < per" and "\<forall>i\<in>set idxs. i < length ys \<and> is_label (ys ! i)"
  shows "\<exists>bs. batches_loop uuid st (JArr ys) per rem idxs acc = Inr (acc @ bs)
           \<and> map count bs = map (\<lambda>i. per + (if int i < rem then 1 else 0)) idxs
           \<and> map agent_id bs = map (\<lambda>i. int i + 1) idxs"
  using assms(2)
proof (induction idxs arbitrary: acc)
  case Nil
  then show ?case by simp
next
  case (Cons i idxs)
  from Cons.prems have i: "i < length ys" and "is_label (ys ! i)" by simp_all
  then obtain s where s: "ys ! i = JStr s" using is_label_JStr by blast
  define b where "b = \<lparr>batch_id = uuid (length acc), topic = state_topic st,
      subtopic = s, count = per + (if int i < rem then 1 else 0),
      difficulty = state_difficulty st, agent_id = int i + 1,
      flashcards = [], status = ''pending'', error_message = None\<rparr>"
  have pos: "\<not> per + (if int i < rem then 1 else 0) \<le> 0" using assms(1) by simp
  have step: "batches_loop uuid st (JArr ys) per rem (i # idxs) acc
                = batches_loop uuid st (JArr ys) per rem idxs (acc @ [b])"
    using i s pos by (simp add: b_def Let_def)
  from Cons.prems have "\<forall>j\<in>set idxs. j < length ys \<and> is_label (ys ! j)" by simp
  from Cons.IH[OF this, of "acc @ [b]"] obtain bs where
    bs: "batches_loop uuid st (JArr ys) per rem idxs (acc @ [b]) = Inr ((acc @ [b]) @ bs)"
      "map count bs = map (\<lambda>i. per + (if int i < rem then 1 else 0)) idxs"
      "map agent_id bs = map (\<lambda>i. int i + 1) idxs"
    by blast
  have "batches_loop uuid st (JArr ys) per rem (i # idxs) acc = Inr (acc @ (b # bs))"
    using step bs(1) by simp
  moreover have "map count (b # bs) = map (\<lambda>i. per + (if int i < rem then 1 else 0)) (i # idxs)"
    using bs(2) by (simp add: b_def)
  moreover have "map agent_id (b # bs) = map (\<lambda>i. int i + 1) (i # idxs)"
    using bs(3) by (simp add: b_def)
  ultimately show ?case by blast
qed

lemma create_batches_shares:
  assumes "0 < total_count st" and "1 \<le> max_agents"
    and "usable_decomposition configured decomposed"
  shows "\<exists>bs. create_batches uuid configured decomposed max_agents st
                 = Inr (bs, st\<lparr>agents_count := min max_agents (total_count st)\<rparr>)
           \<and> map count bs =
               map (\<lambda>i. total_count st div min max_agents (total_count st)
                          + (if int i < total_count st mod min max_agents (total_count st)
                             then 1 else 0))
                   [0..<nat (min max_agents (total_count st))]
           \<and> map agent_id bs = map (\<lambda>i. int i + 1) [0..<nat (min max_agents (total_count st))]"
proof -
  define w where "w = min max_agents (total_count st)"
  have w: "1 \<le> w" "w \<le> total_count st" using assms(1,2) by (simp_all add: w_def)
  then have mx: "max 1 w = w" by simp
  have per: "1 \<le> total_count st div w"
    using w by (rule share_positive)
  then have mp: "max 1 (total_count st div w) = total_count st div w" by simp
  from generate_subtopics_usable[OF assms(3), of w "state_topic st"] w obtain ys where
    ys: "generate_subtopics configured decomposed (state_topic st) w = Inr (JArr ys)"
      "length ys = nat w" "list_all is_label ys"
    by auto
  have idx: "\<forall>i\<in>set [0..<nat w]. i < length ys \<and> is_label (ys ! i)"
    using ys(2,3) by (simp add: list_all_length)
  have "0 < total_count st div w" using per by simp
  from batches_loop_labelled[OF this idx, of uuid "st\<lparr>agents_count := w\<rparr>" "total_count st mod w" "[]"]
  obtain bs where
    bs: "batches_loop uuid (st\<lparr>agents_count := w\<rparr>) (JArr ys) (total_count st div w)
           (total_count st mod w) [0..<nat w] [] = Inr bs"
      "map count bs = map (\<lambda>i. total_count st div w + (if int i < total_count st mod w then 1 else 0)) [0..<nat w]"
      "map agent_id bs = map (\<lambda>i. int i + 1) [0..<nat w]"
    by auto
  have "create_batches uuid configured decomposed max_agents st = Inr (bs, st\<lparr>agents_count := w\<rparr>)"
    unfolding create_batches_def Let_def
    by (simp add: w_def[symmetric] mx mp ys(1) bs(1))
  then show ?thesis using bs(2,3) unfolding w_def by blast
qed

text \<open>
  The planner on the decompositions that yield labels. For a positive total and at
  least one worker it returns batches whose counts sum to the total, at most
  \<open>min max_agents total_count\<close> of them; batch \<open>i\<close> gets the integer quotient, plus
  one when \<open>i\<close> is below the remainder, and no batch has a count of zero or less.
\<close>

lemma create_batches_sum_and_bound:
  assumes "0 < total_count st" and "1 \<le> max_agents"
    and "usable_decomposition configured decomposed"
  shows "\<exists>bs st'. create_batches uuid configured decomposed max_agents st = Inr (bs, st')
           \<and> sum_list (map count bs) = total_count st
           \<and> int (length bs) \<le> min max_agents (total_count st)
           \<and> (\<forall>i < length bs.
                 count (bs ! i) =
                   total_count st div max 1 (min max_agents (total_count st))
                   + (if int i < total_count st mod max 1 (min max_agents (total_count st))
                      then 1 else 0))
           \<and> list_all (\<lambda>b. 0 < count b) bs"
proof -
  define w where "w = min max_agents (total_count st)"
  have w: "1 \<le> w" "w \<le> total_count st" using assms(1,2) by (simp_all add: w_def)
  then have mx: "max 1 w = w" by simp
  have per: "1 \<le> total_count st div w"
    using w by (rule share_positive)
  from create_batches_shares[OF assms, of uuid] obtain bs where
    run: "create_batches uuid configured decomposed max_agents st = Inr (bs, st\<lparr>agents_count := w\<rparr>)"
    and cnt: "map count bs =
        map (\<lambda>i. total_count st div w + (if int i < total_count st mod w then 1 else 0)) [0..<nat w]"
    unfolding w_def by blast
  have len: "length bs = nat w"
    using arg_cong[OF cnt, of length] by simp
  have "sum_list (map count bs) = int (nat w) * (total_count st div w) + total_count st mod int (nat w)"
    using w sum_list_shares[of "nat w" "total_count st div w" "total_count st"]
    by (simp add: cnt)
  then have total: "sum_list (map count bs) = total_count st"
    using w by simp
  have nth: "\<forall>i < length bs. count (bs ! i) =
      total_count st div w + (if int i < total_count st mod w then 1 else 0)"
  proof (intro allI impI)
    fix i assume i: "i < length bs"
    have "count (bs ! i) = map count bs ! i" using i by simp
    also have "\<dots> = total_count st div w + (if int i < total_count st mod w then 1 else 0)"
      using i len by (simp add: cnt)
    finally show "count (bs ! i) = total_count st div w + (if int i < total_count st mod w then 1 else 0)" .
  qed
  have pos: "list_all (\<lambda>b. 0 < count b) bs"
    unfolding list_all_length
  proof (intro allI impI)
    fix i assume "i < length bs"
    with nth per show "0 < count (bs ! i)" by auto
  qed
  show ?thesis
    using run total len w nth pos unfolding w_def[symmetric] mx by auto
qed


lemma create_batches_sum_and_bound_example:
  "0 < total_count (photosynthesis_state 7) \<and> (1::int) \<le> 3
     \<and> usable_decomposition True (Inr (JArr [JStr ''Light reactions'']))
     \<and> (\<exists>bs st'. create_batches str_nat True (Inr (JArr [JStr ''Light reactions''])) 3
                      (photosynthesis_state 7) = Inr (bs, st')
           \<and> sum_list (map count bs) = 7 \<and> int (length bs) \<le> 3)"
  using create_batches_sum_and_bound
          [of "photosynthesis_state 7" 3 True "Inr (JArr [JStr ''Light reactions''])" str_nat]
  by (auto simp: photosynthesis_state_def usable_decomposition_def)

lemma balanced_Max_Min:
  fixes f :: "'a \<Rightarrow> int"
  assumes "xs \<noteq> []" and "\<forall>a\<in>set xs. \<forall>b\<in>set xs. f a \<le> f b + 1"
  shows "Max (f ` set xs) - Min (f ` set xs) \<le> 1"
proof -
  have fin: "finite (f ` set xs)" and ne: "f ` set xs \<noteq> {}" using assms(1) by simp_all
  from Max_in[OF fin ne] obtain a where a: "a \<in> set xs" "Max (f ` set xs) = f a" by auto
  from Min_in[OF fin ne] obtain b where b: "b \<in> set xs" "Min (f ` set xs) = f b" by auto
  from assms(2) a(1) b(1) have "f a \<le> f b + 1" by blast
  then show ?thesis using a(2) b(2) by simp
qed

text \<open>
  On the same decompositions the largest and the smallest planned count differ by at
  most 1, and a total of 10 over 4 workers gives the counts 3, 3, 2, 2 in batch order.
\<close>

lemma create_batches_balanced:
  assumes "0 < total_count st" and "1 \<le> max_agents"
    and "usable_decomposition configured decomposed"
  shows "\<exists>bs st'. create_batches uuid configured decomposed max_agents st = Inr (bs, st')
           \<and> bs \<noteq> []
           \<and> Max (count ` set bs) - Min (count ` set bs) \<le> 1
           \<and> (total_count st = 10 \<and> max_agents = 4 \<longrightarrow> map count bs = [3, 3, 2, 2])"
proof -
  define w where "w = min max_agents (total_count st)"
  have w: "1 \<le> w" using assms(1,2) by (simp add: w_def)
  from create_batches_shares[OF assms, of uuid] obtain bs where
    run: "create_batches uuid configured decomposed max_agents st = Inr (bs, st\<lparr>agents_count := w\<rparr>)"
    and cnt: "map count bs =
        map (\<lambda>i. total_count st div w + (if int i < total_count st mod w then 1 else 0)) [0..<nat w]"
    unfolding w_def by blast
  have len: "length bs = nat w" using arg_cong[OF cnt, of length] by simp
  then have ne: "bs \<noteq> []" using w by auto
  have span: "total_count st div w \<le> count b \<and> count b \<le> total_count st div w + 1"
    if "b \<in> set bs" for b
  proof -
    from that have "count b \<in> set (map count bs)" by simp
    then obtain i where
      "count b = total_count st div w + (if int i < total_count st mod w then 1 else 0)"
      unfolding cnt by auto
    then show ?thesis by simp
  qed
  have "\<forall>a\<in>set bs. \<forall>b\<in>set bs. count a \<le> count b + 1"
  proof (intro ballI)
    fix a b assume "a \<in> set bs" and "b \<in> set bs"
    from span[OF this(1)] span[OF this(2)] show "count a \<le> count b + 1" by linarith
  qed
  from balanced_Max_Min[OF ne this] have bal: "Max (count ` set bs) - Min (count ` set bs) \<le> 1" .
  have "map (\<lambda>i. (2::int) + (if int i < 2 then 1 else 0)) [0..<4] = [3, 3, 2, 2]"
    by (simp add: upt_rec)
  then have scen: "map count bs = [3, 3, 2, 2]" if "total_count st = 10 \<and> max_agents = 4"
    using that cnt by (simp add: w_def)
  show ?thesis
  proof (intro exI conjI)
    show "create_batches uuid configured decomposed max_agents st
            = Inr (bs, st\<lparr>agents_count := w\<rparr>)" by (rule run)
    show "bs \<noteq> []" by (rule ne)
    show "Max (count ` set bs) - Min (count ` set bs) \<le> 1" by (rule bal)
    show "total_count st = 10 \<and> max_agents = 4 \<longrightarrow> map count bs = [3, 3, 2, 2]"
      using scen by simp
  qed
qed

lemma create_batches_balanced_example:
  "0 < total_count (photosynthesis_state 10) \<and> (1::int) \<le> 4
     \<and> usable_decomposition True (Inl (OtherException ''timeout''))
     \<and> (\<exists>bs st'. create_batches str_nat True (Inl (OtherException ''timeout'')) 4
                      (photosynthesis_state 10) = Inr (bs, st')
           \<and> Max (count ` set bs) - Min (count ` set bs) \<le> 1
           \<and> map count bs = [3, 3, 2, 2])"
  using create_batches_balanced
          [of "photosynthesis_state 10" 4 True "Inl (OtherException ''timeout'')" str_nat]
  by (auto simp: photosynthesis_state_def usable_decomposition_def)

text \<open>
  The subtopic helper on the outcomes that yield labels: exactly \<open>cnt\<close> labels, the
  provider's first, then the synthesized ones; a surplus is cut off.
\<close>

lemma generate_subtopics_labels:
  assumes "0 \<le> cnt" and "list_all is_label xs"
  shows "generate_subtopics True (Inr (JArr xs)) t cnt
           = Inr (JArr (take (nat cnt)
                   (xs @ map (\<lambda>i. JStr (generic_label t (i + 1))) [length xs..<nat cnt])))"
proof -
  have "pad_subtopics t cnt (JArr xs) = Inr (JArr (pad_list t cnt xs))"
    by (cases "int (length xs) < cnt") (simp_all add: pad_subtopics_def pad_list.simps[of t cnt xs])
  then show ?thesis
    using assms(1) by (simp add: generate_subtopics_def slice_to_def pad_list_closed)
qed

lemma generate_subtopics_raised:
  assumes "0 \<le> cnt"
  shows "generate_subtopics True (Inl exc) t cnt
           = Inr (JArr (map (\<lambda>i. JStr (generic_label t (i + 1))) [0..<nat cnt]))"
proof -
  have "pad_subtopics t cnt (JArr []) = Inr (JArr (pad_list t cnt []))"
    by (cases "0 < cnt") (simp_all add: pad_subtopics_def pad_list.simps[of t cnt "[]"])
  then show ?thesis
    using assms by (simp add: generate_subtopics_def slice_to_def pad_list_closed)
qed

text \<open>
  Claim C10 fails on the code. The padding loop and the slice stand after the
  \<^verbatim>\<open>try\<close>, so a provider answer that parses to a JSON object (here
  \<^verbatim>\<open>{"subtopics": ["Light reactions", "Calvin cycle"]}\<close> for 2 labels) reaches
  \<^verbatim>\<open>subtopics.append\<close> as a dict: the helper raises AttributeError and returns no
  labels, and the planner that called it returns no batches.
\<close>

theorem generate_subtopics_object_raises:
  "generate_subtopics True
     (Inr (JObj [(''subtopics'', JArr [JStr ''Light reactions'', JStr ''Calvin cycle''])]))
     ''Photosynthesis'' 2
   = Inl (AttributeError ([CHR 0x27] @ ''dict'' @ [CHR 0x27] @ '' object has no attribute ''
            @ [CHR 0x27] @ ''append'' @ [CHR 0x27]))
   \<and> create_batches str_nat True
     (Inr (JObj [(''subtopics'', JArr [JStr ''Light reactions'', JStr ''Calvin cycle''])]))
     4 (photosynthesis_state 2)
   = Inl (AttributeError ([CHR 0x27] @ ''dict'' @ [CHR 0x27] @ '' object has no attribute ''
            @ [CHR 0x27] @ ''append'' @ [CHR 0x27]))"
  by (simp add: generate_subtopics_def pad_subtopics_def create_batches_def
        photosynthesis_state_def)

text \<open>
  Claim C1 fails on the code, by the defect of claim C10. The planner takes its labels
  from the subtopic helper and has no handler of its own: for 5 flashcards over 2
  workers, when the provider answers the decomposition with the JSON object
  \<^verbatim>\<open>{"subtopics": ["Light reactions", "Calvin cycle"]}\<close>, the helper raises
  AttributeError after its \<^verbatim>\<open>try\<close> and the planner returns no batch at all, so no
  counts sum to 5.
\<close>

theorem create_batches_object_no_batches:
  "create_batches str_nat True
     (Inr (JObj [(''subtopics'', JArr [JStr ''Light reactions'', JStr ''Calvin cycle''])]))
     2 (photosynthesis_state 5)
   = Inl (AttributeError ([CHR 0x27] @ ''dict'' @ [CHR 0x27] @ '' object has no attribute ''
            @ [CHR 0x27] @ ''append'' @ [CHR 0x27]))"
  by (simp add: generate_subtopics_def pad_subtopics_def create_batches_def
        photosynthesis_state_def)

text \<open>
  Claim C7 fails on the code, by the same defect. Planning 10 flashcards over 4 workers
  with the provider answering the decomposition with a JSON object of four labels does
  not give the batches 3, 3, 2, 2: the helper raises and the planner returns none.
\<close>

theorem create_batches_scenario_object_no_batches:
  "create_batches str_nat True
     (Inr (JObj [(''subtopics'',
                  JArr [JStr ''Light reactions'', JStr ''Calvin cycle'',
                        JStr ''Chloroplasts'', JStr ''Pigments''])]))
     4 (photosynthesis_state 10)
   = Inl (AttributeError ([CHR 0x27] @ ''dict'' @ [CHR 0x27] @ '' object has no attribute ''
            @ [CHR 0x27] @ ''append'' @ [CHR 0x27]))"
  by (simp add: generate_subtopics_def pad_subtopics_def create_batches_def
        photosynthesis_state_def)

section \<open>Properties of the progress tracker\<close>

lemma update_absent: "map_of al k = None \<Longrightarrow> AList.update k v al = al @ [(k, v)]"
  by (induction al) (auto split: if_splits)

lemma update_present_filter:
  "distinct (map fst al) \<Longrightarrow> map_of al k = Some v \<Longrightarrow>
     length (filter P (AList.update k v' al)) + (if P (k, v) then 1 else 0)
       = length (filter P al) + (if P (k, v') then 1 else 0)"
proof (induction al)
  case Nil
  then show ?case by simp
next
  case (Cons p al)
  obtain k0 v0 where p: "p = (k0, v0)" by (cases p)
  show ?case
  proof (cases "k0 = k")
    case True
    then show ?thesis using Cons.prems p by auto
  next
    case False
    then show ?thesis using Cons p by auto
  qed
qed

lemma ensure_slots_loop_map_of:
  "map_of (ensure_slots_loop ids al) k
     = (if k \<in> set ids \<and> map_of al k = None then Some waiting_slot else map_of al k)"
  by (induction ids arbitrary: al) (auto simp: update_conv')

lemma ensure_slots_loop_distinct:
  "distinct (map fst al) \<Longrightarrow> distinct (map fst (ensure_slots_loop ids al))"
  by (induction ids arbitrary: al) (auto simp: distinct_update)

lemma ensure_slots_loop_filter:
  "filter terminal_slot (ensure_slots_loop ids al) = filter terminal_slot al"
  by (induction ids arbitrary: al)
     (auto simp: update_absent terminal_slot_def waiting_slot_def terminal_def)


lemma terminal_count_eq: "terminal_count t = length (terminal_agents t)"
  by (simp add: terminal_count_def terminal_agents_def)

lemma update_agent_status_step:
  assumes d: "distinct (map fst (agents_status t))"
    and a: "1 \<le> aid \<or> map_of (agents_status t) aid \<noteq> None"
  shows "\<exists>t'. update_agent_status now aid st sub progress t = Inr t'
           \<and> distinct (map fst (agents_status t'))
           \<and> total_agents t' = total_agents t
           \<and> completed_agents t' =
               (if enters_terminal (now, aid, st, sub, progress) t
                then min (total_agents t) (completed_agents t + 1) else completed_agents t)
           \<and> terminal_count t' + (if leaves_terminal (now, aid, st, sub, progress) t then 1 else 0)
               = terminal_count t + (if enters_terminal (now, aid, st, sub, progress) t then 1 else 0)"
proof -
  define t1 where "t1 = (if map_of (agents_status t) aid = None then ensure_agent_slots aid t else t)"
  define prev where "prev = (case map_of (agents_status t) aid of None \<Rightarrow> waiting_slot | Some s \<Rightarrow> s)"
  define new where "new = \<lparr>slot_status = st, slot_subtopic = sub, slot_progress = progress,
                          completed_at = (if terminal st then Some now else None)\<rparr>"
  define t2 where "t2 = t1\<lparr>agents_status := AList.update aid new (agents_status t1)\<rparr>"
  have d1: "distinct (map fst (agents_status t1))"
    using d by (simp add: t1_def ensure_agent_slots_def ensure_slots_loop_distinct)
  have look: "map_of (agents_status t1) aid = Some prev"
  proof (cases "map_of (agents_status t) aid")
    case None
    with a have "aid \<in> set [1..aid]" by simp
    then show ?thesis
      using None by (simp add: t1_def prev_def ensure_agent_slots_def ensure_slots_loop_map_of)
  next
    case (Some s)
    then show ?thesis by (simp add: t1_def prev_def)
  qed
  have f1: "terminal_count t1 = terminal_count t"
    by (simp add: t1_def terminal_count_def ensure_agent_slots_def ensure_slots_loop_filter)
  have tot1: "total_agents t1 = total_agents t" and c1: "completed_agents t1 = completed_agents t"
    by (simp_all add: t1_def ensure_agent_slots_def)
  have pt: "terminal (slot_status prev) \<longleftrightarrow>
              (case status_of t aid of None \<Rightarrow> False | Some p \<Rightarrow> terminal p)"
    by (simp add: prev_def status_of_def waiting_slot_def terminal_def split: option.splits)
  have ent: "enters_terminal (now, aid, st, sub, progress) t
               \<longleftrightarrow> terminal st \<and> \<not> terminal (slot_status prev)"
    using pt by (simp split: option.splits)
  have lea: "leaves_terminal (now, aid, st, sub, progress) t
               \<longleftrightarrow> \<not> terminal st \<and> terminal (slot_status prev)"
    using pt by (simp split: option.splits)
  have run: "update_agent_status now aid st sub progress t
      = Inr (if terminal st \<and> \<not> terminal (slot_status prev)
             then t2\<lparr>completed_agents := min (total_agents t2) (completed_agents t2 + 1)\<rparr>
             else t2)"
    unfolding update_agent_status_def Let_def t1_def[symmetric]
    by (simp add: look new_def t2_def)
  have d2: "distinct (map fst (agents_status t2))"
    using d1 by (simp add: t2_def distinct_update)
  have cnt: "terminal_count t2 + (if terminal (slot_status prev) then 1 else 0)
               = terminal_count t1 + (if terminal st then 1 else 0)"
    using update_present_filter[OF d1 look, of terminal_slot new]
    by (simp add: terminal_count_def t2_def terminal_slot_def new_def)
  have tot2: "total_agents t2 = total_agents t" and c2: "completed_agents t2 = completed_agents t"
    using tot1 c1 by (simp_all add: t2_def)
  show ?thesis
  proof (cases "terminal st \<and> \<not> terminal (slot_status prev)")
    case True
    then show ?thesis
      using run d2 tot2 c2 cnt f1 ent lea
      by (simp add: terminal_count_def)
  next
    case False
    then show ?thesis
      using run d2 tot2 c2 cnt f1 ent lea
      by (auto simp: terminal_count_def)
  qed
qed


lemma min_step:
  fixes T c :: int
  assumes "c \<le> T"
  shows "min T (min T (c + 1) + int k) = min T (c + 1 + int k)"
  using assms by (simp add: min_def)

lemma run_updates_counts:
  assumes "distinct (map fst (agents_status t0))"
    and "list_all (\<lambda>c. 1 \<le> call_agent c) calls"
    and "completed_agents t0 \<le> total_agents t0"
  shows "\<exists>t. run_updates calls t0 = Inr t
           \<and> distinct (map fst (agents_status t))
           \<and> total_agents t = total_agents t0
           \<and> completed_agents t
               = min (total_agents t0) (completed_agents t0 + int (count_entries calls t0))
           \<and> (forward_only calls t0 \<longrightarrow>
                 terminal_count t = terminal_count t0 + count_entries calls t0)"
  using assms
proof (induction calls arbitrary: t0)
  case Nil
  then show ?case by simp
next
  case (Cons c calls)
  obtain now aid st sub progress where c: "c = (now, aid, st, sub, progress)"
    by (cases c) auto
  from Cons.prems(2) c have aid: "1 \<le> aid" and rest: "list_all (\<lambda>c. 1 \<le> call_agent c) calls"
    by simp_all
  from update_agent_status_step[OF Cons.prems(1), of aid now st sub progress] aid
  obtain t1 where
    s1: "update_agent_status now aid st sub progress t0 = Inr t1"
    and d1: "distinct (map fst (agents_status t1))"
    and tot1: "total_agents t1 = total_agents t0"
    and c1: "completed_agents t1 =
               (if enters_terminal c t0
                then min (total_agents t0) (completed_agents t0 + 1) else completed_agents t0)"
    and n1: "terminal_count t1 + (if leaves_terminal c t0 then 1 else 0)
               = terminal_count t0 + (if enters_terminal c t0 then 1 else 0)"
    unfolding c by blast
  have le1: "completed_agents t1 \<le> total_agents t1"
    using c1 tot1 Cons.prems(3) by (simp add: min_def)
  from Cons.IH[OF d1 rest le1] obtain t where
    r: "run_updates calls t1 = Inr t"
    and d: "distinct (map fst (agents_status t))"
    and tot: "total_agents t = total_agents t1"
    and cn: "completed_agents t
               = min (total_agents t1) (completed_agents t1 + int (count_entries calls t1))"
    and fw: "forward_only calls t1 \<longrightarrow>
               terminal_count t = terminal_count t1 + count_entries calls t1"
    by blast
  have app: "apply_update c t0 = Inr t1" using s1 c by simp
  have run: "run_updates (c # calls) t0 = Inr t" using app r by simp
  have ent: "count_entries (c # calls) t0
               = (if enters_terminal c t0 then 1 else 0) + count_entries calls t1"
    using app by simp
  have cnt: "completed_agents t
               = min (total_agents t0) (completed_agents t0 + int (count_entries (c # calls) t0))"
  proof (cases "enters_terminal c t0")
    case True
    then show ?thesis
      using cn c1 tot1 ent min_step[OF Cons.prems(3), of "count_entries calls t1"]
      by (simp add: add.assoc)
  next
    case False
    then show ?thesis using cn c1 tot1 ent by simp
  qed
  have fwd: "forward_only (c # calls) t0 \<longrightarrow>
               terminal_count t = terminal_count t0 + count_entries (c # calls) t0"
  proof
    assume f: "forward_only (c # calls) t0"
    then have nl: "\<not> leaves_terminal c t0" and f1: "forward_only calls t1"
      using app by simp_all
    from fw f1 have "terminal_count t = terminal_count t1 + count_entries calls t1" by simp
    then show "terminal_count t = terminal_count t0 + count_entries (c # calls) t0"
      using n1 nl ent by simp
  qed
  show ?case
  proof (intro exI conjI)
    show "run_updates (c # calls) t0 = Inr t" by (rule run)
    show "distinct (map fst (agents_status t))" by (rule d)
    show "total_agents t = total_agents t0" using tot tot1 by simp
    show "completed_agents t
            = min (total_agents t0) (completed_agents t0 + int (count_entries (c # calls) t0))"
      by (rule cnt)
    show "forward_only (c # calls) t0 \<longrightarrow>
            terminal_count t = terminal_count t0 + count_entries (c # calls) t0"
      by (rule fwd)
  qed
qed

lemma new_tracker_fresh:
  "distinct (map fst (agents_status (new_tracker op_id n now)))
     \<and> total_agents (new_tracker op_id n now) = max 1 n
     \<and> completed_agents (new_tracker op_id n now) = 0
     \<and> terminal_count (new_tracker op_id n now) = 0"
  by (simp add: new_tracker_def ensure_agent_slots_def ensure_slots_loop_distinct
        terminal_count_def ensure_slots_loop_filter)

lemma terminal_agent_slot:
  assumes "distinct (map fst (agents_status t))" and "aid \<in> set (terminal_agents t)"
  shows "\<exists>prev. status_of t aid = Some prev \<and> terminal prev"
proof -
  from assms(2) obtain slot where
    in_al: "(aid, slot) \<in> set (agents_status t)" and tm: "terminal (slot_status slot)"
    by (auto simp: terminal_agents_def terminal_slot_def)
  from assms(1) in_al have "map_of (agents_status t) aid = Some slot" by simp
  then show ?thesis using tm by (simp add: status_of_def)
qed



text \<open>
  Claim C5 as stated fails: the counter does not remember which agents were counted.
  One agent reported completed, then processing, then completed again is counted
  twice, although a single agent ever reached a terminal status.
\<close>

theorem completed_agents_counts_reentry:
  "(case run_updates
           [(1, 1, ''completed'', ''Light reactions'', 100),
            (2, 1, ''processing'', ''Light reactions'', 10),
            (3, 1, ''completed'', ''Light reactions'', 100)]
           (new_tracker ''flashcards_1'' 2 0) of
      Inl e \<Rightarrow> None
    | Inr t \<Rightarrow> Some (completed_agents t, terminal_agents t)) = Some (2, [1])
   \<and> reported_terminal
         [(1, 1, ''completed'', ''Light reactions'', 100),
          (2, 1, ''processing'', ''Light reactions'', 10),
          (3, 1, ''completed'', ''Light reactions'', 100)] = [1]"
  by code_simp

text \<open>
  Claim C5, amended. On a new tracker every sequence of calls for agents numbered from 1
  runs without raising; \<open>completed_agents\<close> is the number of calls that moved an agent
  from a status that is not terminal into \<open>completed\<close> or \<open>error\<close>, capped at
  \<open>total_agents\<close>, so it never exceeds \<open>total_agents\<close>. When no call moves an agent
  back out of a terminal status, that is one count for each agent that is terminal
  (capped). Reporting a terminal status for an agent that is terminal leaves the counter
  as it is.
\<close>

theorem update_agent_status_counts_entries:
  assumes "list_all (\<lambda>c. 1 \<le> call_agent c) calls"
  shows "\<exists>t. run_updates calls (new_tracker op_id n now0) = Inr t
           \<and> total_agents t = max 1 n
           \<and> completed_agents t
               = min (max 1 n) (int (count_entries calls (new_tracker op_id n now0)))
           \<and> completed_agents t \<le> total_agents t
           \<and> (forward_only calls (new_tracker op_id n now0) \<longrightarrow>
                 completed_agents t = min (total_agents t) (int (length (terminal_agents t))))
           \<and> (\<forall>now aid st sub progress.
                 terminal st \<and> aid \<in> set (terminal_agents t) \<longrightarrow>
                 (\<exists>t'. update_agent_status now aid st sub progress t = Inr t'
                        \<and> completed_agents t' = completed_agents t))"
proof -
  define t0 where "t0 = new_tracker op_id n now0"
  have fresh: "distinct (map fst (agents_status t0))" "total_agents t0 = max 1 n"
    "completed_agents t0 = 0" "terminal_count t0 = 0"
    using new_tracker_fresh[of op_id n now0] by (simp_all add: t0_def)
  have le0: "completed_agents t0 \<le> total_agents t0" using fresh by simp
  from run_updates_counts[OF fresh(1) assms le0] obtain t where
    r: "run_updates calls t0 = Inr t"
    and d: "distinct (map fst (agents_status t))"
    and tot: "total_agents t = total_agents t0"
    and cn: "completed_agents t
               = min (total_agents t0) (completed_agents t0 + int (count_entries calls t0))"
    and fw: "forward_only calls t0 \<longrightarrow> terminal_count t = terminal_count t0 + count_entries calls t0"
    by blast
  have cn': "completed_agents t = min (max 1 n) (int (count_entries calls t0))"
    using cn fresh by simp
  have idem: "\<exists>t'. update_agent_status now aid st sub progress t = Inr t'
                 \<and> completed_agents t' = completed_agents t"
    if "terminal st \<and> aid \<in> set (terminal_agents t)" for now aid st sub progress
  proof -
    from terminal_agent_slot[OF d] that obtain prev where
      prev: "status_of t aid = Some prev" "terminal prev" by blast
    then have present: "1 \<le> aid \<or> map_of (agents_status t) aid \<noteq> None"
      by (auto simp: status_of_def)
    have no: "\<not> enters_terminal (now, aid, st, sub, progress) t" using prev by simp
    from update_agent_status_step[OF d present, of now st sub progress] no
    show ?thesis by auto
  qed
  show ?thesis unfolding t0_def[symmetric]
  proof (intro exI[of _ t] conjI)
    show "run_updates calls t0 = Inr t" by (rule r)
    show "total_agents t = max 1 n" using tot fresh by simp
    show "completed_agents t = min (max 1 n) (int (count_entries calls t0))" by (rule cn')
    show "completed_agents t \<le> total_agents t" using cn' tot fresh by simp
    show "forward_only calls t0 \<longrightarrow>
            completed_agents t = min (total_agents t) (int (length (terminal_agents t)))"
      using fw cn' tot fresh by (simp add: terminal_count_eq)
    show "\<forall>now aid st sub progress.
            terminal st \<and> aid \<in> set (terminal_agents t) \<longrightarrow>
            (\<exists>t'. update_agent_status now aid st sub progress t = Inr t'
                   \<and> completed_agents t' = completed_agents t)"
      using idem by blast
  qed
qed

theorem update_agent_status_counts_entries_witness:
  "list_all (\<lambda>c. 1 \<le> call_agent c) sample_calls
   \<and> forward_only sample_calls (new_tracker ''flashcards_1'' 3 0)
   \<and> (\<exists>t. run_updates sample_calls (new_tracker ''flashcards_1'' 3 0) = Inr t
          \<and> total_agents t = 3 \<and> completed_agents t = 2
          \<and> int (length (terminal_agents t)) = 2)"
proof -
  have a: "list_all (\<lambda>c. 1 \<le> call_agent c) sample_calls"
    by (simp add: sample_calls_def)
  have f: "forward_only sample_calls (new_tracker ''flashcards_1'' 3 0)"
    unfolding sample_calls_def by code_simp
  have e: "count_entries sample_calls (new_tracker ''flashcards_1'' 3 0) = 2"
    unfolding sample_calls_def by code_simp
  from update_agent_status_counts_entries[OF a, of "''flashcards_1''" 3 0] f e
  obtain t where
    "run_updates sample_calls (new_tracker ''flashcards_1'' 3 0) = Inr t"
    "total_agents t = 3" "completed_agents t = 2"
    "completed_agents t = min (total_agents t) (int (length (terminal_agents t)))"
    by auto
  moreover from this have "int (length (terminal_agents t)) = 2"
    by (simp add: min_def split: if_splits) 
  ultimately show ?thesis using a f by blast
qed


section \<open>Properties of the worker and the orchestrator\<close>

lemma task_ok_advance:
  assumes "task_ok env bs workers s"
  shows "task_ok env bs workers (advance env bs workers i s)"
proof (cases "i < length (run_tasks s)")
  case False
  then show ?thesis using assms by (simp add: advance_def)
next
  case True
  with assms have i: "i < length bs" by (simp add: task_ok_def)
  show ?thesis
  proof (cases "run_tasks s ! i")
    case Created
    then show ?thesis
      using assms True by (auto simp: advance_def task_ok_def nth_list_update)
  next
    case Awaiting
    then show ?thesis
      using assms True i
      by (auto simp: advance_def task_ok_def nth_list_update batch_results_def split: prod.splits)
  next
    case (Done r)
    then show ?thesis using assms True by (simp add: advance_def)
  qed
qed

lemma task_ok_fold:
  "task_ok env bs workers s \<Longrightarrow> task_ok env bs workers (fold (advance env bs workers) sched s)"
  by (induction sched arbitrary: s) (simp_all add: task_ok_advance)

lemma task_ok_run: "task_ok env bs workers (run_schedule env bs workers sched)"
  unfolding run_schedule_def
  by (rule task_ok_fold) (simp add: task_ok_def)

lemma gather_Some:
  "gather ts = Some rs \<Longrightarrow> length rs = length ts \<and> (\<forall>i < length ts. ts ! i = Done (rs ! i))"
proof (induction ts arbitrary: rs)
  case Nil
  then show ?case by simp
next
  case (Cons t ts)
  from Cons.prems obtain r rs' where t: "t = Done r" and g: "gather ts = Some rs'" and rs: "rs = r # rs'"
    by (cases t) (auto split: option.splits)
  from Cons.IH[OF g] show ?case
    using t rs by (auto simp: nth_Cons split: nat.splits)
qed

lemma gather_all_done:
  "(\<forall>t \<in> set ts. rank t = 2) \<Longrightarrow> gather ts \<noteq> None"
proof (induction ts)
  case Nil
  then show ?case by simp
next
  case (Cons t ts)
  then obtain r where "t = Done r" by (cases t) auto
  then show ?case using Cons by (auto split: option.splits)
qed

lemma gather_run_schedule:
  assumes "gather (run_tasks (run_schedule env bs workers sched)) = Some rs"
  shows "rs = batch_results env bs workers"
proof (rule nth_equalityI)
  have ok: "task_ok env bs workers (run_schedule env bs workers sched)" by (rule task_ok_run)
  from gather_Some[OF assms] have
    len: "length rs = length (run_tasks (run_schedule env bs workers sched))"
    and dn: "\<forall>i < length (run_tasks (run_schedule env bs workers sched)).
               run_tasks (run_schedule env bs workers sched) ! i = Done (rs ! i)"
    by simp_all
  show l: "length rs = length (batch_results env bs workers)"
    using len ok by (simp add: task_ok_def batch_results_def)
  fix i assume "i < length rs"
  then have i: "i < length bs" using l by (simp add: batch_results_def)
  then have "run_tasks (run_schedule env bs workers sched) ! i = Done (rs ! i)"
    using dn ok by (simp add: task_ok_def)
  then show "rs ! i = batch_results env bs workers ! i"
    using ok i unfolding task_ok_def by blast
qed

lemma advance_length: "length (run_tasks (advance env bs workers i s)) = length (run_tasks s)"
  by (auto simp: advance_def split: task.splits prod.splits)

lemma advance_rank:
  assumes "j < length (run_tasks s)"
  shows "min 2 (rank (run_tasks s ! j) + (if i = j then 1 else 0))
           \<le> rank (run_tasks (advance env bs workers i s) ! j)"
proof (cases "i = j")
  case True
  then show ?thesis
    using assms by (cases "run_tasks s ! j") (auto simp: advance_def split: prod.splits)
next
  case False
  then show ?thesis
    by (cases "run_tasks s ! i") (auto simp: advance_def nth_list_update split: prod.splits)
qed

lemma fold_advance_length:
  "length (run_tasks (fold (advance env bs workers) sched s)) = length (run_tasks s)"
  by (induction sched arbitrary: s) (simp_all add: advance_length)

lemma fold_advance_rank:
  assumes "j < length (run_tasks s)"
  shows "min 2 (rank (run_tasks s ! j) + count_list sched j)
           \<le> rank (run_tasks (fold (advance env bs workers) sched s) ! j)"
  using assms
proof (induction sched arbitrary: s)
  case Nil
  then show ?case by simp
next
  case (Cons i sched)
  let ?s1 = "advance env bs workers i s"
  have j1: "j < length (run_tasks ?s1)" using Cons.prems by (simp add: advance_length)
  have a: "min 2 (rank (run_tasks s ! j) + (if i = j then 1 else 0)) \<le> rank (run_tasks ?s1 ! j)"
    by (rule advance_rank[OF Cons.prems])
  have b: "min 2 (rank (run_tasks ?s1 ! j) + count_list sched j)
             \<le> rank (run_tasks (fold (advance env bs workers) sched ?s1) ! j)"
    by (rule Cons.IH[OF j1])
  show ?case using a b by (auto simp: min_def split: if_splits)
qed

lemma rank_le_2: "rank t \<le> 2"
  by (cases t) simp_all

lemma twice_completes:
  assumes "\<forall>j < length bs. 2 \<le> count_list sched j"
  shows "gather (run_tasks (run_schedule env bs workers sched)) \<noteq> None"
proof (rule gather_all_done, rule ballI)
  fix t assume "t \<in> set (run_tasks (run_schedule env bs workers sched))"
  then obtain j where j: "j < length (run_tasks (run_schedule env bs workers sched))"
    and t: "t = run_tasks (run_schedule env bs workers sched) ! j"
    by (auto simp: in_set_conv_nth)
  have len: "length (run_tasks (run_schedule env bs workers sched)) = length bs"
    by (simp add: run_schedule_def fold_advance_length)
  have "min 2 (rank (replicate (length bs) Created ! j) + count_list sched j) \<le> rank t"
    unfolding t run_schedule_def
    using fold_advance_rank[of j "\<lparr>run_tasks = replicate (length bs) Created, run_events = []\<rparr>"
            sched env bs workers] j len
    by simp
  moreover have "2 \<le> count_list sched j" using assms j len by simp
  ultimately have "2 \<le> rank t" using j len by (simp add: min_def split: if_splits)
  then show "rank t = 2" using rank_le_2[of t] by simp
qed

lemma count_list_upt: "count_list [0..<n] j = (if j < n then 1 else 0)"
  by (induction n) auto


lemma collect_returned:
  assumes "length bs = length rs"
  shows "collect cb n_batches (zip bs (map Inr rs))
           = (rs, concat (map (\<lambda>r. if status r = ''completed'' then flashcards r else []) rs), [])"
  using assms by (induction bs rs rule: list_induct2) simp_all

lemma parallel_is_sequential:
  assumes "generate_flashcards_parallel env max_agents sched topic_arg count_arg difficulty_arg
             subject_arg user_id_arg = Some (res, evs)"
  shows "res = sequential_result env max_agents topic_arg count_arg difficulty_arg
                 subject_arg user_id_arg"
proof (cases "\<not> env_configured env \<or> count_arg \<le> 0")
  case True
  then show ?thesis
    using assms by (auto simp: generate_flashcards_parallel_def sequential_result_def)
next
  case False
  define st where "st = initial_state env topic_arg count_arg difficulty_arg subject_arg user_id_arg"
  show ?thesis
  proof (cases "create_batches (env_batch_uuid env) (env_configured env) (env_decomposed env) max_agents st")
    case (Inl exc)
    then show ?thesis
      using assms False
      by (simp add: generate_flashcards_parallel_def sequential_result_def st_def[symmetric])
  next
    case (Inr p)
    obtain bs st1 where p: "p = (bs, st1)" by (cases p)
    show ?thesis
    proof (cases "bs = []")
      case True
      then show ?thesis
        using assms False Inr p
        by (simp add: generate_flashcards_parallel_def sequential_result_def st_def[symmetric])
    next
      case ne: False
      show ?thesis
      proof (cases "agents_for max_agents bs")
        case (Inl exc)
        then show ?thesis
          using assms False Inr p ne
          by (simp add: generate_flashcards_parallel_def sequential_result_def st_def[symmetric] Let_def)
      next
        case w: (Inr workers)
        from assms False Inr p ne w obtain rs where
          g: "gather (run_tasks (run_schedule env bs workers sched)) = Some rs"
          by (auto simp: generate_flashcards_parallel_def st_def[symmetric] Let_def
                split: option.splits)
        have rs: "rs = batch_results env bs workers" by (rule gather_run_schedule[OF g])
        have len: "length bs = length rs" by (simp add: rs batch_results_def)
        show ?thesis
          using assms False Inr p ne w g
          by (simp add: generate_flashcards_parallel_def sequential_result_def st_def[symmetric]
                Let_def collect_returned[OF len] rs[symmetric])
      qed
    qed
  qed
qed

lemma batches_loop_agents:
  assumes "batches_loop uuid st subs per rem idxs acc = Inr bs"
  shows "\<exists>new. bs = acc @ new
           \<and> map agent_id new
               = map (\<lambda>i. int i + 1)
                   (filter (\<lambda>i. \<not> per + (if int i < rem then 1 else 0) \<le> 0) idxs)"
  using assms
proof (induction idxs arbitrary: acc)
  case Nil
  then show ?case by simp
next
  case (Cons i idxs)
  show ?case
  proof (cases "per + (if int i < rem then 1 else 0) \<le> 0")
    case True
    with Cons.prems have "batches_loop uuid st subs per rem idxs acc = Inr bs"
      by (simp add: Let_def)
    from Cons.IH[OF this] show ?thesis using True by simp
  next
    case False
    with Cons.prems obtain label s where
      "py_getitem subs i = Inr label" and "pydantic_str label = Inr s"
      and r: "batches_loop uuid st subs per rem idxs
                (acc @ [\<lparr>batch_id = uuid (length acc), topic = state_topic st,
                          subtopic = s, count = per + (if int i < rem then 1 else 0),
                          difficulty = state_difficulty st, agent_id = int i + 1,
                          flashcards = [], status = ''pending'',
                          error_message = None\<rparr>]) = Inr bs"
      by (auto simp: Let_def split: sum.splits)
    from Cons.IH[OF r] obtain new where
      "bs = (acc @ [\<lparr>batch_id = uuid (length acc), topic = state_topic st,
                          subtopic = s, count = per + (if int i < rem then 1 else 0),
                          difficulty = state_difficulty st, agent_id = int i + 1,
                          flashcards = [], status = ''pending'',
                          error_message = None\<rparr>]) @ new"
      and "map agent_id new = map (\<lambda>i. int i + 1)
              (filter (\<lambda>i. \<not> per + (if int i < rem then 1 else 0) \<le> 0) idxs)"
      by blast
    then show ?thesis using False by simp
  qed
qed

lemma create_batches_agents:
  assumes "create_batches uuid configured decomposed max_agents st = Inr (bs, st1)"
  shows "sorted (map agent_id bs) \<and> (\<forall>b \<in> set bs. 1 \<le> agent_id b)
           \<and> length bs \<le> nat (max 1 (min max_agents (total_count st)))"
proof -
  define n where "n = nat (max 1 (min max_agents (total_count st)))"
  from assms obtain subs per rem where
    "batches_loop uuid (st\<lparr>agents_count := max 1 (min max_agents (total_count st))\<rparr>)
        subs per rem [0..<n] [] = Inr bs"
    by (auto simp: create_batches_def Let_def n_def split: sum.splits)
  from batches_loop_agents[OF this] have
    ag: "map agent_id bs = map (\<lambda>i. int i + 1)
           (filter (\<lambda>i. \<not> per + (if int i < rem then 1 else 0) \<le> 0) [0..<n])"
    by simp
  have "sorted (map (\<lambda>i. int i + 1) [0..<n])"
    by (simp add: sorted_iff_nth_mono)
  then have s: "sorted (map agent_id bs)"
    unfolding ag by (rule sorted_filter)
  have p: "\<forall>b \<in> set bs. 1 \<le> agent_id b"
  proof
    fix b assume "b \<in> set bs"
    then have "agent_id b \<in> set (map agent_id bs)" by simp
    then show "1 \<le> agent_id b" unfolding ag by auto
  qed
  have "length bs = length (map agent_id bs)" by simp
  also have "\<dots> \<le> length [0..<n]" unfolding ag length_map by (rule length_filter_le)
  finally have "length bs \<le> n" by simp
  then show ?thesis using s p by (simp add: n_def)
qed

lemma agents_for_identity:
  assumes "agents_for max_agents bs = Inr workers" and "\<forall>b \<in> set bs. 1 \<le> agent_id b"
  shows "workers = map agent_id bs"
  using assms
proof (induction bs arbitrary: workers)
  case Nil
  then show ?case by simp
next
  case (Cons b bs)
  from Cons.prems(1) obtain a as where
    a: "agent_for max_agents b = Inr a" and as: "agents_for max_agents bs = Inr as"
    and w: "workers = a # as"
    by (auto split: sum.splits)
  from Cons.prems(2) have b1: "1 \<le> agent_id b" by simp
  have "a = agent_id b"
    using a b1 by (auto simp: agent_for_def agents_def Let_def split: if_splits)
  moreover have "as = map agent_id bs" using Cons.IH[OF as] Cons.prems(2) by simp
  ultimately show ?case using w by simp
qed

lemma set_items_agent:
  assumes "set_items v [(''id'', i), (''batch_id'', b), (''agent_id'', JInt a), (''created_at'', c)]
             = Inr tagged"
  shows "item_agent tagged = a"
proof -
  from assms obtain kvs where "v = JObj kvs" by (cases v) auto
  with assms show ?thesis by (auto simp: item_agent_def update_conv')
qed

lemma tag_loop_agent:
  "tag_loop bid a created index items = Inr cards \<Longrightarrow> \<forall>c \<in> set cards. item_agent c = a"
proof (induction items arbitrary: index cards)
  case Nil
  then show ?case by simp
next
  case (Cons v items)
  from Cons.prems obtain tagged rest where
    t: "set_items v [(''id'', JStr (bid @ ''_'' @ str_nat (index + 1))), (''batch_id'', JStr bid),
                     (''agent_id'', JInt a), (''created_at'', JStr (created index))] = Inr tagged"
    and r: "tag_loop bid a created (index + 1) items = Inr rest"
    and c: "cards = tagged # rest"
    by (auto split: sum.splits)
  from set_items_agent[OF t] Cons.IH[OF r] c show ?case by simp
qed

lemma worker_finish_agent:
  "agent_id (fst (worker_finish cb a created b n_batches parsed)) = agent_id b"
  by (simp add: worker_finish_def split: sum.splits)

lemma worker_finish_cards:
  assumes "status (fst (worker_finish cb a created b n_batches parsed)) = ''completed''"
  shows "\<forall>c \<in> set (flashcards (fst (worker_finish cb a created b n_batches parsed))).
           item_agent c = a"
proof (cases "parse_flashcards a created b parsed")
  case (Inl exc)
  then show ?thesis using assms by (simp add: worker_finish_def)
next
  case (Inr cards)
  from Inr obtain items where "tag_loop (batch_id b) a created 0 items = Inr cards"
    by (auto simp: parse_flashcards_def split: sum.splits)
  from tag_loop_agent[OF this] show ?thesis using Inr by (simp add: worker_finish_def)
qed

lemma sorted_blocks:
  fixes k :: "'a \<Rightarrow> int"
  assumes "sorted (map k xs)" and "\<forall>x \<in> set xs. \<forall>y \<in> set (f x). h y = k x"
  shows "sorted (map h (concat (map f xs)))"
  using assms
proof (induction xs)
  case Nil
  then show ?case by simp
next
  case (Cons x xs)
  have first: "\<forall>y \<in> set (f x). h y = k x" using Cons.prems(2) by simp
  have later: "\<forall>z \<in> set (concat (map f xs)). k x \<le> h z"
  proof
    fix z assume "z \<in> set (concat (map f xs))"
    then obtain x' where x': "x' \<in> set xs" "z \<in> set (f x')" by auto
    then have "h z = k x'" using Cons.prems(2) by simp
    moreover have "k x \<le> k x'" using Cons.prems(1) x'(1) by simp
    ultimately show "k x \<le> h z" by simp
  qed
  have s1: "sorted (map h (f x))"
    using first by (simp add: sorted_iff_nth_mono)
  have s2: "sorted (map h (concat (map f xs)))"
    using Cons.IH Cons.prems by simp
  show ?case
    using s1 s2 first later by (auto simp: sorted_append)
qed

lemma batch_results_agents:
  assumes "workers = map agent_id bs"
  shows "map agent_id (batch_results env bs workers) = map agent_id bs"
  by (rule nth_equalityI) (simp_all add: batch_results_def worker_finish_agent)

lemma batch_results_cards:
  assumes "workers = map agent_id bs" and "r \<in> set (batch_results env bs workers)"
    and "c \<in> set (if status r = ''completed'' then flashcards r else [])"
  shows "item_agent c = agent_id r"
proof -
  from assms(2) obtain i where i: "i < length bs"
    and r: "r = fst (worker_finish (env_callback env) (workers ! i) (env_created_at env i)
                      (bs ! i) (int (length bs)) (env_provider env i))"
    by (auto simp: batch_results_def)
  from assms(3) have st: "status r = ''completed''" and c: "c \<in> set (flashcards r)"
    by (auto split: if_splits)
  from worker_finish_cards[of "env_callback env" "workers ! i" "env_created_at env i" "bs ! i"
         "int (length bs)" "env_provider env i"] st c
  have "item_agent c = workers ! i" unfolding r by blast
  moreover have "agent_id r = agent_id (bs ! i)" unfolding r by (rule worker_finish_agent)
  ultimately show ?thesis using assms(1) i by simp
qed

lemma outcome_flashcards:
  "result_flashcards (outcome topic_arg difficulty_arg started ended completed_batches cards) = cards"
  by (simp add: outcome_def Let_def)

lemma sequential_sorted:
  "sorted (map item_agent
     (result_flashcards (sequential_result env max_agents topic_arg count_arg difficulty_arg
        subject_arg user_id_arg)))"
proof (cases "\<not> env_configured env \<or> count_arg \<le> 0")
  case True
  then show ?thesis by (auto simp: sequential_result_def)
next
  case False
  define st where "st = initial_state env topic_arg count_arg difficulty_arg subject_arg user_id_arg"
  show ?thesis
  proof (cases "create_batches (env_batch_uuid env) (env_configured env) (env_decomposed env) max_agents st")
    case (Inl exc)
    then show ?thesis
      using False by (cases exc) (simp_all add: sequential_result_def st_def[symmetric])
  next
    case (Inr p)
    obtain bs st1 where p: "p = (bs, st1)" by (cases p)
    from create_batches_agents[OF Inr[unfolded p]] have
      srt: "sorted (map agent_id bs)" and pos: "\<forall>b \<in> set bs. 1 \<le> agent_id b" by simp_all
    show ?thesis
    proof (cases "bs = []")
      case True
      then show ?thesis
        using False Inr p by (simp add: sequential_result_def st_def[symmetric])
    next
      case ne: False
      show ?thesis
      proof (cases "agents_for max_agents bs")
        case (Inl exc)
        then show ?thesis
          using False Inr p ne
          by (cases exc) (simp_all add: sequential_result_def st_def[symmetric])
      next
        case w: (Inr workers)
        have wk: "workers = map agent_id bs" by (rule agents_for_identity[OF w pos])
        have "sorted (map agent_id (batch_results env bs workers))"
          using srt by (simp add: batch_results_agents[OF wk])
        then have "sorted (map item_agent
            (concat (map (\<lambda>r. if status r = ''completed'' then flashcards r else [])
                       (batch_results env bs workers))))"
          by (rule sorted_blocks) (use batch_results_cards[OF wk] in blast)
        then show ?thesis
          using False Inr p ne w
          by (simp add: sequential_result_def st_def[symmetric] outcome_flashcards)
      qed
    qed
  qed
qed

lemma parallel_returns:
  assumes "\<forall>j < nat (max 1 (min max_agents count_arg)). 2 \<le> count_list sched j"
  shows "generate_flashcards_parallel env max_agents sched topic_arg count_arg difficulty_arg
           subject_arg user_id_arg \<noteq> None"
proof (cases "\<not> env_configured env \<or> count_arg \<le> 0")
  case True
  then show ?thesis by (auto simp: generate_flashcards_parallel_def)
next
  case False
  define st where "st = initial_state env topic_arg count_arg difficulty_arg subject_arg user_id_arg"
  show ?thesis
  proof (cases "create_batches (env_batch_uuid env) (env_configured env) (env_decomposed env) max_agents st")
    case (Inl exc)
    then show ?thesis
      using False by (simp add: generate_flashcards_parallel_def st_def[symmetric])
  next
    case (Inr p)
    obtain bs st1 where p: "p = (bs, st1)" by (cases p)
    from create_batches_agents[OF Inr[unfolded p]] have
      "length bs \<le> nat (max 1 (min max_agents (total_count st)))" by simp
    then have len: "length bs \<le> nat (max 1 (min max_agents count_arg))" by (simp add: st_def initial_state_def)
    show ?thesis
    proof (cases "agents_for max_agents bs")
      case (Inl exc)
      then show ?thesis
        using False Inr p
        by (simp add: generate_flashcards_parallel_def st_def[symmetric] Let_def)
    next
      case w: (Inr workers)
      have "\<forall>j < length bs. 2 \<le> count_list sched j" using assms len by simp
      from twice_completes[OF this, of env workers] obtain rs where
        "gather (run_tasks (run_schedule env bs workers sched)) = Some rs" by auto
      then show ?thesis
        using False Inr p w
        by (simp add: generate_flashcards_parallel_def st_def[symmetric] Let_def
              split: prod.splits)
    qed
  qed
qed

text \<open>
  Claim C2. Two runs of the same request that differ only in the order in which the
  event loop resumes and finishes the tasks return the same result, which is the one
  computed batch after batch in planning order; the agent ids of the aggregated
  flashcards ascend.
\<close>

theorem aggregate_follows_batch_order:
  assumes "generate_flashcards_parallel env max_agents sched topic_arg count_arg difficulty_arg
             subject_arg user_id_arg = Some (res, evs)"
    and "generate_flashcards_parallel env max_agents sched' topic_arg count_arg difficulty_arg
             subject_arg user_id_arg = Some (res', evs')"
  shows "res' = res
           \<and> res = sequential_result env max_agents topic_arg count_arg difficulty_arg
                     subject_arg user_id_arg
           \<and> sorted (map item_agent (result_flashcards res))"
  using parallel_is_sequential[OF assms(1)] parallel_is_sequential[OF assms(2)]
    sequential_sorted[of env max_agents topic_arg count_arg difficulty_arg subject_arg user_id_arg]
  by simp

theorem aggregate_follows_batch_order_witness:
  "\<exists>res evs evs'.
      generate_flashcards_parallel demo_env 4 [2, 1, 0, 2, 1, 0] ''Photosynthesis'' 3 ''medium''
        None ''default'' = Some (res, evs)
    \<and> generate_flashcards_parallel demo_env 4 (in_order 3) ''Photosynthesis'' 3 ''medium''
        None ''default'' = Some (res, evs')
    \<and> map item_agent (result_flashcards res) = [1, 3]"
proof -
  have a: "\<forall>j < nat (max 1 (min 4 3)). 2 \<le> count_list [2, 1, 0, 2, 1, 0] j"
    by (auto simp: less_Suc_eq numeral_3_eq_3)
  have b: "\<forall>j < nat (max 1 (min 4 3)). 2 \<le> count_list (in_order 3) j"
    by (simp add: in_order_def count_list_upt)
  from parallel_returns[OF a, of demo_env "''Photosynthesis''" "''medium''" None "''default''"]
  obtain res evs where
    r1: "generate_flashcards_parallel demo_env 4 [2, 1, 0, 2, 1, 0] ''Photosynthesis'' 3
           ''medium'' None ''default'' = Some (res, evs)" by auto
  from parallel_returns[OF b, of demo_env "''Photosynthesis''" "''medium''" None "''default''"]
  obtain res' evs' where
    r2: "generate_flashcards_parallel demo_env 4 (in_order 3) ''Photosynthesis'' 3
           ''medium'' None ''default'' = Some (res', evs')" by auto
  from aggregate_follows_batch_order[OF r1 r2] have
    same: "res' = res"
    and seq: "res = sequential_result demo_env 4 ''Photosynthesis'' 3 ''medium'' None ''default''"
    by simp_all
  have "map item_agent (result_flashcards
          (sequential_result demo_env 4 ''Photosynthesis'' 3 ''medium'' None ''default'')) = [1, 3]"
    by code_simp
  then have i: "map item_agent (result_flashcards res) = [1, 3]" using seq by simp
  show ?thesis
  proof (rule exI[of _ res], rule exI[of _ evs], rule exI[of _ evs'], intro conjI)
    show "generate_flashcards_parallel demo_env 4 [2, 1, 0, 2, 1, 0] ''Photosynthesis'' 3
            ''medium'' None ''default'' = Some (res, evs)" by (rule r1)
    show "generate_flashcards_parallel demo_env 4 (in_order 3) ''Photosynthesis'' 3
            ''medium'' None ''default'' = Some (res, evs')" using r2 same by simp
    show "map item_agent (result_flashcards res) = [1, 3]" by (rule i)
  qed
qed

lemma concat_completed:
  "concat (map (\<lambda>r. if status r = ''completed'' then flashcards r else []) rs)
     = concat (map flashcards (filter (\<lambda>r. status r = ''completed'') rs))"
  by (induction rs) simp_all

lemma worker_finish_status:
  "status (fst (worker_finish cb a created b n_batches parsed)) = ''completed''
     \<or> status (fst (worker_finish cb a created b n_batches parsed)) = ''error''"
  by (simp add: worker_finish_def split: sum.splits)

lemma batch_results_status:
  "r \<in> set (batch_results env bs workers) \<Longrightarrow> status r = ''completed'' \<or> status r = ''error''"
proof -
  assume "r \<in> set (batch_results env bs workers)"
  then obtain i where
    "r = fst (worker_finish (env_callback env) (workers ! i) (env_created_at env i)
                (bs ! i) (int (length bs)) (env_provider env i))"
    by (auto simp: batch_results_def)
  then show ?thesis by (simp add: worker_finish_status)
qed

lemma filter_two_way:
  assumes "\<forall>x \<in> set xs. P x \<or> Q x" and "\<forall>x \<in> set xs. \<not> (P x \<and> Q x)"
  shows "length (filter P xs) + length (filter Q xs) = length xs"
  using assms by (induction xs) auto

lemma parallel_planned:
  assumes "env_configured env" and "0 < count_arg"
    and "create_batches (env_batch_uuid env) (env_configured env) (env_decomposed env) max_agents
           (initial_state env topic_arg count_arg difficulty_arg subject_arg user_id_arg)
           = Inr (bs, st1)"
    and "bs \<noteq> []" and "agents_for max_agents bs = Inr workers"
  shows "sequential_result env max_agents topic_arg count_arg difficulty_arg subject_arg user_id_arg
           = outcome topic_arg difficulty_arg (env_started env) (env_ended env)
               (batch_results env bs workers)
               (concat (map flashcards
                  (filter (\<lambda>r. status r = ''completed'') (batch_results env bs workers))))"
  using assms by (simp add: sequential_result_def concat_completed)

text \<open>
  Claim C3. When batches were planned and the call returns, the aggregate is the
  flashcards of the batches that completed, in batch order, whatever the other batches
  did. The result is a success exactly when that list is not empty; a success reports
  how many batches completed and how many failed, and the two add up to the number of
  batches. When every batch failed the result is a failure and the list is empty.
\<close>

theorem partial_result_is_success:
  assumes "generate_flashcards_parallel env max_agents sched topic_arg count_arg difficulty_arg
             subject_arg user_id_arg = Some (res, evs)"
    and "env_configured env" and "0 < count_arg"
    and "create_batches (env_batch_uuid env) (env_configured env) (env_decomposed env) max_agents
           (initial_state env topic_arg count_arg difficulty_arg subject_arg user_id_arg)
           = Inr (bs, st1)"
    and "bs \<noteq> []" and "agents_for max_agents bs = Inr workers"
  shows "result_flashcards res
           = concat (map flashcards
               (filter (\<lambda>r. status r = ''completed'') (batch_results env bs workers)))
         \<and> (success res \<longleftrightarrow> result_flashcards res \<noteq> [])
         \<and> (result_flashcards res \<noteq> [] \<longrightarrow>
              (\<exists>r. res = Success r
                 \<and> res_flashcards r = result_flashcards res
                 \<and> res_batches_completed r
                      = length (filter (\<lambda>r. status r = ''completed'') (batch_results env bs workers))
                 \<and> res_batches_failed r
                      = length (filter (\<lambda>r. status r = ''error'') (batch_results env bs workers))
                 \<and> res_batches_completed r + res_batches_failed r = length bs))
         \<and> ((\<forall>r \<in> set (batch_results env bs workers). status r = ''error'') \<longrightarrow>
              \<not> success res \<and> result_flashcards res = []
              \<and> (\<exists>details. res = Failure msg_failed (length bs) details))"
proof -
  define rs where "rs = batch_results env bs workers"
  define cards where "cards = concat (map flashcards (filter (\<lambda>r. status r = ''completed'') rs))"
  have res: "res = outcome topic_arg difficulty_arg (env_started env) (env_ended env) rs cards"
    using parallel_is_sequential[OF assms(1)] parallel_planned[OF assms(2-6)]
    by (simp add: rs_def cards_def)
  have len: "length rs = length bs" by (simp add: rs_def batch_results_def)
  have two: "length (filter (\<lambda>r. status r = ''completed'') rs)
               + length (filter (\<lambda>r. status r = ''error'') rs) = length rs"
    by (rule filter_two_way) (use batch_results_status[of _ env bs workers] in \<open>auto simp: rs_def\<close>)
  have c1: "result_flashcards res = cards" by (simp add: res outcome_flashcards)
  have c2: "success res \<longleftrightarrow> result_flashcards res \<noteq> []"
    by (simp add: res outcome_def Let_def)
  have c3: "\<exists>r. res = Success r
                 \<and> res_flashcards r = result_flashcards res
                 \<and> res_batches_completed r = length (filter (\<lambda>r. status r = ''completed'') rs)
                 \<and> res_batches_failed r = length (filter (\<lambda>r. status r = ''error'') rs)
                 \<and> res_batches_completed r + res_batches_failed r = length bs"
    if "result_flashcards res \<noteq> []"
    using that c1 two len by (simp add: res outcome_def Let_def)
  have c4: "\<not> success res \<and> result_flashcards res = []
              \<and> (\<exists>details. res = Failure msg_failed (length bs) details)"
    if all: "\<forall>r \<in> set rs. status r = ''error''"
  proof -
    have "filter (\<lambda>r. status r = ''completed'') rs = []"
      using all by (auto simp: filter_empty_conv)
    then have e: "cards = []" by (simp add: cards_def)
    have "filter (\<lambda>r. status r = ''error'') rs = rs" using all by simp
    then show ?thesis using e len by (simp add: res outcome_def Let_def)
  qed
  show ?thesis
    using c1 c2 c3 c4 unfolding rs_def[symmetric] cards_def[symmetric] by blast
qed

lemma demo_labels:
  "generate_subtopics True (Inr (JArr [JStr ''Light reactions'', JStr ''Calvin cycle'']))
     ''Photosynthesis'' 3
   = Inr (JArr [JStr ''Light reactions'', JStr ''Calvin cycle'', JStr ''Photosynthesis - Parte 3''])"
  by (simp add: generate_subtopics_labels generic_label_def str_nat.simps digit_char_def upt_rec)

lemma demo_planned:
  "create_batches (env_batch_uuid demo_env) (env_configured demo_env) (env_decomposed demo_env) 4
     (initial_state demo_env ''Photosynthesis'' 3 ''medium'' None ''default'')
   = Inr (demo_batches,
          (initial_state demo_env ''Photosynthesis'' 3 ''medium'' None ''default'')
            \<lparr>agents_count := 3\<rparr>)"
  by (simp add: create_batches_def demo_env_def initial_state_def demo_labels demo_batches_def
        upt_rec str_nat.simps digit_char_def Let_def)

lemma demo_workers: "agents_for 4 demo_batches = Inr [1, 2, 3]"
  by (simp add: demo_batches_def agent_for_def agents_def upt_rec Let_def)

lemma demo_results:
  "batch_results demo_env demo_batches [1, 2, 3]
     = map (\<lambda>i. fst (worker_finish (env_callback demo_env) ([1, 2, 3] ! i)
                       (env_created_at demo_env i) (demo_batches ! i) 3 (env_provider demo_env i)))
         [0, 1, 2]"
proof -
  have "length demo_batches = 3" by (simp add: demo_batches_def)
  moreover have "[0..<3] = [0, 1, 2]" by (simp add: upt_rec)
  ultimately show ?thesis by (simp only: batch_results_def of_nat_numeral)
qed


lemma demo_completed:
  "length (filter (\<lambda>r. status r = ''completed'')
     (batch_results demo_env demo_batches [1, 2, 3])) = 2"
  unfolding demo_results by (simp add: worker_finish_def parse_flashcards_def demo_env_def
        demo_batches_def emit_def)

lemma demo_failed:
  "length (filter (\<lambda>r. status r = ''error'')
     (batch_results demo_env demo_batches [1, 2, 3])) = 1"
  unfolding demo_results by (simp add: worker_finish_def parse_flashcards_def demo_env_def
        demo_batches_def emit_def)

lemma demo_cards:
  "concat (map flashcards (filter (\<lambda>r. status r = ''completed'')
     (batch_results demo_env demo_batches [1, 2, 3]))) \<noteq> []"
  unfolding demo_results by (simp add: worker_finish_def parse_flashcards_def demo_env_def
        demo_batches_def emit_def)

theorem partial_result_is_success_witness:
  "\<exists>res evs r.
      generate_flashcards_parallel demo_env 4 (in_order 3) ''Photosynthesis'' 3 ''medium''
        None ''default'' = Some (res, evs)
    \<and> env_configured demo_env \<and> (0::int) < 3 \<and> demo_batches \<noteq> []
    \<and> res = Success r \<and> res_flashcards r \<noteq> []
    \<and> res_batches_completed r = 2 \<and> res_batches_failed r = 1"
proof -
  have b: "\<forall>j < nat (max 1 (min 4 3)). 2 \<le> count_list (in_order 3) j"
    by (simp add: in_order_def count_list_upt)
  from parallel_returns[OF b, of demo_env "''Photosynthesis''" "''medium''" None "''default''"]
  obtain res evs where
    run: "generate_flashcards_parallel demo_env 4 (in_order 3) ''Photosynthesis'' 3
           ''medium'' None ''default'' = Some (res, evs)" by auto
  have c: "env_configured demo_env" by (simp add: demo_env_def)
  have pos: "(0::int) < 3" by simp
  have ne: "demo_batches \<noteq> []" by (simp add: demo_batches_def)
  note t = partial_result_is_success[OF run c pos demo_planned ne demo_workers]
  from t have "result_flashcards res
           = concat (map flashcards
               (filter (\<lambda>r. status r = ''completed'')
                  (batch_results demo_env demo_batches [1, 2, 3])))"
    by (rule conjunct1)
  then have some: "result_flashcards res \<noteq> []" using demo_cards by simp
  from t have "result_flashcards res \<noteq> [] \<longrightarrow>
              (\<exists>r. res = Success r
                 \<and> res_flashcards r = result_flashcards res
                 \<and> res_batches_completed r
                      = length (filter (\<lambda>r. status r = ''completed'')
                          (batch_results demo_env demo_batches [1, 2, 3]))
                 \<and> res_batches_failed r
                      = length (filter (\<lambda>r. status r = ''error'')
                          (batch_results demo_env demo_batches [1, 2, 3]))
                 \<and> res_batches_completed r + res_batches_failed r = length demo_batches)"
    by (rule conjunct1[OF conjunct2[OF conjunct2]])
  with some obtain r where r: "res = Success r" "res_flashcards r = result_flashcards res"
    "res_batches_completed r = length (filter (\<lambda>r. status r = ''completed'')
                          (batch_results demo_env demo_batches [1, 2, 3]))"
    "res_batches_failed r = length (filter (\<lambda>r. status r = ''error'')
                          (batch_results demo_env demo_batches [1, 2, 3]))"
    by blast
  show ?thesis
  proof (rule exI[of _ res], rule exI[of _ evs], rule exI[of _ r], intro conjI)
    show "generate_flashcards_parallel demo_env 4 (in_order 3) ''Photosynthesis'' 3 ''medium''
            None ''default'' = Some (res, evs)" by (rule run)
    show "env_configured demo_env" by (rule c)
    show "(0::int) < 3" by simp
    show "demo_batches \<noteq> []" by (rule ne)
    show "res = Success r" by (rule r(1))
    show "res_flashcards r \<noteq> []" using r(2) some by simp
    show "res_batches_completed r = 2" using r(3) demo_completed by simp
    show "res_batches_failed r = 1" using r(4) demo_failed by simp
  qed
qed



lemma worker_events:
  "snd (generate_flashcards_batch True a created b n_batches parsed)
     = [\<lparr>ev_agent = a, ev_status = ''processing'', ev_subtopic = subtopic b,
         ev_progress = 5, ev_total = Some n_batches\<rparr>,
        \<lparr>ev_agent = a,
         ev_status = status (fst (generate_flashcards_batch True a created b n_batches parsed)),
         ev_subtopic = subtopic b, ev_progress = 100, ev_total = Some n_batches\<rparr>]"
  by (simp add: generate_flashcards_batch_def worker_start_def worker_finish_def emit_def
        split: sum.splits)




section \<open>Properties of the service entry point\<close>

lemma handle_progress_store:
  "handle_progress r now ev w = Inr w' \<Longrightarrow> progress_store w' = progress_store w"
  by (auto simp: handle_progress_def Let_def split: sum.splits)

lemma replay_store:
  "replay r now evs w = Inr w' \<Longrightarrow> progress_store w' = progress_store w"
proof (induction evs arbitrary: w)
  case Nil
  then show ?case by simp
next
  case (Cons ev evs)
  from Cons.prems obtain w1 where
    h: "handle_progress r now ev w = Inr w1" and r: "replay r now evs w1 = Inr w'"
    by (auto split: sum.splits)
  from Cons.IH[OF r] handle_progress_store[OF h] show ?case by simp
qed

lemma finalize_loop_store:
  "finalize_loop r now st topic_arg progress ids w = Inr w' \<Longrightarrow> progress_store w' = progress_store w"
proof (induction ids arbitrary: w)
  case Nil
  then show ?case by simp
next
  case (Cons i ids)
  from Cons.prems obtain t where
    "finalize_loop r now st topic_arg progress ids (w\<lparr>trackers := (trackers w)(r := t)\<rparr>) = Inr w'"
    by (auto split: sum.splits)
  from Cons.IH[OF this] show ?case by simp
qed

lemma finalize_agents_store:
  "finalize_agents r now st topic_arg progress w = Inr w' \<Longrightarrow> progress_store w' = progress_store w"
  unfolding finalize_agents_def by (rule finalize_loop_store)

lemma run_single_store:
  "progress_store (snd (run_single senv request r op_id w)) = progress_store w"
  by (auto simp: run_single_def split: sum.splits dest: finalize_agents_store)

lemma on_failure_store:
  "progress_store (snd (on_failure senv request r op_id attempt)) = progress_store (snd attempt)"
  by (auto simp: on_failure_def split: sum.splits prod.splits dest: finalize_agents_store)

lemma generate_with_tracker_store:
  assumes "generate_with_tracker senv request op_id r w1 = Some (resp, w')"
  shows "progress_store w' = progress_store w1"
proof (cases "generator senv")
  case None
  show ?thesis
  proof (cases "handle_progress r (service_clock senv)
                   \<lparr>ev_agent = 1, ev_status = ''processing'', ev_subtopic = req_topic request,
                    ev_progress = 10, ev_total = Some 1\<rparr> w1")
    case (Inl exc)
    then show ?thesis using assms None by (simp add: generate_with_tracker_def)
  next
    case (Inr w2)
    then have "w' = snd (run_single senv request r op_id w2)"
      using assms None by (auto simp: generate_with_tracker_def)
    then show ?thesis using run_single_store handle_progress_store[OF Inr] by simp
  qed
next
  case (Some max_agents)
  from assms Some obtain result evs where
    g: "generate_flashcards_parallel (generation senv) max_agents (resumptions senv)
          (req_topic request) (req_count request) (req_difficulty request)
          (Some (req_subject request)) (req_user_id request) = Some (result, evs)"
    by (auto simp: generate_with_tracker_def split: option.splits)
  define attempt where "attempt =
    (case replay r (service_clock senv) evs w1 of
       Inl exc \<Rightarrow> (Inl exc, w1)
     | Inr w2 \<Rightarrow>
         (case result of
            Success res \<Rightarrow>
              (Inr (ParallelResponse
                 \<lparr>out_flashcards = res_flashcards res,
                  out_topic = req_topic request,
                  out_subject = req_subject request,
                  out_count = length (res_flashcards res),
                  out_difficulty = req_difficulty request,
                  out_processing_time = res_processing_time res,
                  out_agents_used = res_agents_used res,
                  out_operation_id = op_id\<rparr>), w2)
          | other \<Rightarrow>
              (case finalize_agents r (service_clock senv) ''processing''
                      (req_topic request) 10 w2 of
                 Inl exc \<Rightarrow> (Inl exc, w2)
               | Inr w3 \<Rightarrow> run_single senv request r op_id w3)))"
  have a: "progress_store (snd attempt) = progress_store w1"
    unfolding attempt_def
    by (auto split: sum.splits generation_result.splits
          dest!: replay_store finalize_agents_store simp: run_single_store)
  have "(resp, w') = on_failure senv request r op_id attempt"
    using assms Some g by (simp add: generate_with_tracker_def attempt_def)
  then have "w' = snd (on_failure senv request r op_id attempt)"
    by (metis snd_conv)
  then show ?thesis using on_failure_store a by simp
qed

lemma start_registers:
  assumes "start_flashcard_generation senv request w = Some (resp, w')"
  shows "map_of (progress_store w') (''flashcards_'' @ operation_uuid senv) = Some (next_ref w)"
proof -
  let ?op = "''flashcards_'' @ operation_uuid senv"
  let ?est = "case generator senv of None \<Rightarrow> 1
              | Some max_agents \<Rightarrow> estimate_batches max_agents (req_count request)"
  let ?w1 = "w\<lparr>progress_store := AList.update ?op (next_ref w) (progress_store w),
               trackers := (trackers w)(next_ref w := new_tracker ?op ?est (service_clock senv)),
               next_ref := next_ref w + 1\<rparr>"
  have "generate_with_tracker senv request ?op (next_ref w) ?w1 = Some (resp, w')"
    using assms
    by (simp only: start_flashcard_generation_def progress_tracker_init_def Let_def prod.case)
  from generate_with_tracker_store[OF this] show ?thesis
    by (simp add: update_conv')
qed

lemma rejected_before_planning:
  assumes "\<not> env_configured env \<or> count_arg \<le> 0"
  shows "generate_flashcards_parallel env max_agents sched topic_arg count_arg difficulty_arg
           subject_arg user_id_arg
         = Some (Rejected (if \<not> env_configured env then msg_unavailable else msg_not_positive), [])"
  using assms by (auto simp: generate_flashcards_parallel_def)

lemma start_returns_when_generated:
  assumes "generator senv = Some max_agents"
    and "generate_flashcards_parallel (generation senv) max_agents (resumptions senv)
           (req_topic request) (req_count request) (req_difficulty request)
           (Some (req_subject request)) (req_user_id request) = Some (result, evs)"
  shows "\<exists>resp w'. start_flashcard_generation senv request w = Some (resp, w')"
proof -
  have "\<exists>p. generate_with_tracker senv request op_id r w1 = Some p" for op_id r w1
    using assms by (simp add: generate_with_tracker_def)
  then have "\<exists>p. start_flashcard_generation senv request w = Some p"
    by (simp only: start_flashcard_generation_def progress_tracker_init_def Let_def prod.case)
  then show ?thesis by auto
qed

text \<open>
  Claim C4 as stated fails. With the generator present and no provider configured (the
  service started without a provider key), a request for five flashcards leaves an
  entry for its operation in a table that was empty.
\<close>

theorem unconfigured_request_creates_tracker:
  "\<not> env_configured (generation unconfigured_service)
   \<and> map_of (progress_store empty_process) ''flashcards_1a2b3c4d'' = None
   \<and> (case start_flashcard_generation unconfigured_service demo_request empty_process of
         None \<Rightarrow> None
       | Some (resp, w') \<Rightarrow> map_of (progress_store w') ''flashcards_1a2b3c4d'') = Some 0"
proof -
  have u: "\<not> env_configured (generation unconfigured_service)"
    by (simp add: unconfigured_service_def)
  have e: "map_of (progress_store empty_process) ''flashcards_1a2b3c4d'' = None"
    by (simp add: empty_process_def)
  have g: "generate_flashcards_parallel (generation unconfigured_service) 4
             (resumptions unconfigured_service) (req_topic demo_request) (req_count demo_request)
             (req_difficulty demo_request) (Some (req_subject demo_request))
             (req_user_id demo_request)
           = Some (Rejected msg_unavailable, [])"
    using rejected_before_planning[of "generation unconfigured_service"] u by simp
  have "generator unconfigured_service = Some 4" by (simp add: unconfigured_service_def)
  from start_returns_when_generated[OF this g, of empty_process] obtain resp w' where
    s: "start_flashcard_generation unconfigured_service demo_request empty_process
          = Some (resp, w')" by blast
  from start_registers[OF s] have
    "map_of (progress_store w') ''flashcards_1a2b3c4d'' = Some 0"
    by (simp add: unconfigured_service_def empty_process_def)
  then show ?thesis using u e s by simp
qed

lemma start_returns_without_generator:
  assumes "generator senv = None"
  shows "\<exists>resp w'. start_flashcard_generation senv request w = Some (resp, w')"
proof -
  have "\<exists>p. generate_with_tracker senv request op_id r w1 = Some p" for op_id r w1
    using assms by (simp add: generate_with_tracker_def split: sum.splits)
  then have "\<exists>p. start_flashcard_generation senv request w = Some p"
    by (simp only: start_flashcard_generation_def progress_tracker_init_def Let_def prod.case)
  then show ?thesis by auto
qed

lemma start_returns_unconfigured:
  assumes "\<not> env_configured (generation senv)"
  shows "\<exists>resp w'. start_flashcard_generation senv request w = Some (resp, w')"
proof (cases "generator senv")
  case None
  then show ?thesis by (rule start_returns_without_generator)
next
  case (Some max_agents)
  have "generate_flashcards_parallel (generation senv) max_agents (resumptions senv)
           (req_topic request) (req_count request) (req_difficulty request)
           (Some (req_subject request)) (req_user_id request)
         = Some (Rejected msg_unavailable, [])"
    using rejected_before_planning[of "generation senv"] assms by simp
  from start_returns_when_generated[OF Some this] show ?thesis .
qed

text \<open>
  Claim C4, amended. A body with a count that is not positive is refused by the
  validation of the request: the answer is the validation error, the service is not
  called, the process is left as it was and no tracker is created. The generator, for
  its part, returns its rejection at once, for every schedule, before the planner is
  called and with no progress event, both for a count that is not positive and for a
  provider that is not configured. For a valid body with no provider configured the
  tracker of the operation does exist: \<^verbatim>\<open>start_flashcard_generation\<close> creates and
  registers it before it calls the generator, and the table holds the entry when the
  call returns.
\<close>

theorem rejected_requests_and_tracker:
  "(body_count body = Some n \<and> n \<le> 0 \<longrightarrow>
      generate_flashcards_endpoint senv body w
        = Some (Inl (ValidationError ''Input should be greater than or equal to 1''), w))
   \<and> (count_arg \<le> 0 \<or> \<not> env_configured env \<longrightarrow>
        generate_flashcards_parallel env max_agents sched topic_arg count_arg difficulty_arg
          subject_arg user_id_arg
        = Some (Rejected (if \<not> env_configured env then msg_unavailable else msg_not_positive),
                []))
   \<and> (validate_request body = Inr request \<and> \<not> env_configured (generation senv) \<longrightarrow>
        (\<exists>resp w'. generate_flashcards_endpoint senv body w = Some (resp, w')
           \<and> map_of (progress_store w') (''flashcards_'' @ operation_uuid senv)
                = Some (next_ref w)))"
proof (intro conjI impI)
  assume "body_count body = Some n \<and> n \<le> 0"
  then show "generate_flashcards_endpoint senv body w
        = Some (Inl (ValidationError ''Input should be greater than or equal to 1''), w)"
    by (simp add: generate_flashcards_endpoint_def validate_request_def)
next
  assume "count_arg \<le> 0 \<or> \<not> env_configured env"
  then have "\<not> env_configured env \<or> count_arg \<le> 0" by blast
  then show "generate_flashcards_parallel env max_agents sched topic_arg count_arg difficulty_arg
          subject_arg user_id_arg
        = Some (Rejected (if \<not> env_configured env then msg_unavailable else msg_not_positive),
                [])"
    by (rule rejected_before_planning)
next
  assume h: "validate_request body = Inr request \<and> \<not> env_configured (generation senv)"
  from start_returns_unconfigured[OF conjunct2[OF h], of request w] obtain resp w' where
    s: "start_flashcard_generation senv request w = Some (resp, w')" by blast
  have e: "generate_flashcards_endpoint senv body w = Some (resp, w')"
    using h s by (simp add: generate_flashcards_endpoint_def)
  show "\<exists>resp w'. generate_flashcards_endpoint senv body w = Some (resp, w')
           \<and> map_of (progress_store w') (''flashcards_'' @ operation_uuid senv)
                = Some (next_ref w)"
    using e start_registers[OF s] by (intro exI[of _ resp] exI[of _ w'] conjI)
qed

theorem rejected_requests_and_tracker_witness:
  "generate_flashcards_endpoint unconfigured_service (demo_body 0) empty_process
     = Some (Inl (ValidationError ''Input should be greater than or equal to 1''), empty_process)
   \<and> progress_store empty_process = []
   \<and> validate_request (demo_body 5) = Inr demo_request
   \<and> \<not> env_configured (generation unconfigured_service)
   \<and> generate_flashcards_parallel (generation unconfigured_service) 4 [] ''Photosynthesis'' 5
        ''medium'' (Some ''Biology'') ''student'' = Some (Rejected msg_unavailable, [])
   \<and> (\<exists>resp w'.
         generate_flashcards_endpoint unconfigured_service (demo_body 5) empty_process
           = Some (resp, w')
         \<and> map_of (progress_store w') ''flashcards_1a2b3c4d'' = Some 0)"
proof -
  note t = rejected_requests_and_tracker[where body = "demo_body 0" and n = 0
      and senv = unconfigured_service and w = empty_process]
  have b0: "body_count (demo_body 0) = Some 0 \<and> (0::int) \<le> 0" by (simp add: demo_body_def)
  have c1: "generate_flashcards_endpoint unconfigured_service (demo_body 0) empty_process
     = Some (Inl (ValidationError ''Input should be greater than or equal to 1''), empty_process)"
    by (rule mp[OF t[THEN conjunct1] b0])
  have e: "progress_store empty_process = []" by (simp add: empty_process_def)
  have v: "validate_request (demo_body 5) = Inr demo_request"
    by (simp add: validate_request_def demo_body_def demo_request_def)
  have u: "\<not> env_configured (generation unconfigured_service)"
    by (simp add: unconfigured_service_def)
  note t5 = rejected_requests_and_tracker[where body = "demo_body 5" and request = demo_request
      and senv = unconfigured_service and w = empty_process
      and env = "generation unconfigured_service" and count_arg = 5 and max_agents = 4
      and sched = "[]" and topic_arg = "''Photosynthesis''" and difficulty_arg = "''medium''"
      and subject_arg = "Some ''Biology''" and user_id_arg = "''student''"]
  have "(5::int) \<le> 0 \<or> \<not> env_configured (generation unconfigured_service)" using u by simp
  from mp[OF t5[THEN conjunct2, THEN conjunct1] this] u
  have c2: "generate_flashcards_parallel (generation unconfigured_service) 4 [] ''Photosynthesis'' 5
        ''medium'' (Some ''Biology'') ''student'' = Some (Rejected msg_unavailable, [])"
    by simp
  have "validate_request (demo_body 5) = Inr demo_request
          \<and> \<not> env_configured (generation unconfigured_service)" using v u by simp
  from mp[OF t5[THEN conjunct2, THEN conjunct2] this] obtain resp w' where
    r: "generate_flashcards_endpoint unconfigured_service (demo_body 5) empty_process
          = Some (resp, w')"
    and m: "map_of (progress_store w') (''flashcards_'' @ operation_uuid unconfigured_service)
          = Some (next_ref empty_process)"
    by blast
  from m have m': "map_of (progress_store w') ''flashcards_1a2b3c4d'' = Some 0"
    by (simp add: unconfigured_service_def empty_process_def)
  show ?thesis
  proof (intro conjI)
    show "generate_flashcards_endpoint unconfigured_service (demo_body 0) empty_process
     = Some (Inl (ValidationError ''Input should be greater than or equal to 1''), empty_process)"
      by (rule c1)
    show "progress_store empty_process = []" by (rule e)
    show "validate_request (demo_body 5) = Inr demo_request" by (rule v)
    show "\<not> env_configured (generation unconfigured_service)" by (rule u)
    show "generate_flashcards_parallel (generation unconfigured_service) 4 [] ''Photosynthesis'' 5
        ''medium'' (Some ''Biology'') ''student'' = Some (Rejected msg_unavailable, [])"
      by (rule c2)
    show "\<exists>resp w'.
         generate_flashcards_endpoint unconfigured_service (demo_body 5) empty_process
           = Some (resp, w')
         \<and> map_of (progress_store w') ''flashcards_1a2b3c4d'' = Some 0"
      using r m' by (intro exI[of _ resp] exI[of _ w'] conjI)
  qed
qed

section \<open>Properties of the progress stream\<close>

lemma wait_for_operation_absent:
  assumes "\<forall>k \<le> max_wait. map_of (progress_store (observed env k)) op_id = None"
    and "wait_count \<le> max_wait"
  shows "wait_for_operation op_id env wait_count = max_wait"
  using assms(2)
proof (induction "max_wait - wait_count" arbitrary: wait_count)
  case 0
  then have "\<not> wait_count < max_wait" by simp
  then show ?case using 0 by (subst wait_for_operation.simps) simp
next
  case (Suc d)
  then have lt: "wait_count < max_wait" by simp
  have "wait_for_operation op_id env wait_count = wait_for_operation op_id env (wait_count + 1)"
    using lt assms(1) by (subst wait_for_operation.simps) simp
  also have "\<dots> = max_wait"
    using Suc.hyps(1)[of "wait_count + 1"] Suc.hyps(2) lt by simp
  finally show ?case .
qed

lemma timeout_path:
  assumes "\<forall>k \<le> max_wait. map_of (progress_store (observed env k)) op_id = None"
  shows "stream_events (fuel + 3) op_id env NotStarted = [Connected op_id, Timeout]"
proof -
  have w: "wait_for_operation op_id env 0 = max_wait"
    by (rule wait_for_operation_absent[OF assms]) simp
  have n: "map_of (progress_store (observed env max_wait)) op_id = None"
    using assms by simp
  have f: "fuel + 3 = Suc (Suc (Suc fuel))" by simp
  show ?thesis unfolding f by (simp add: w n)
qed

text \<open>
  Claim C8. When the operation is in the table at none of the 31 checks of the bounded
  wait (before the first sleep and after each of the 30), the wait ends at 30 and the
  stream is the \<open>connected\<close> event followed by one \<open>timeout\<close> event, which is its
  last: the generator ends at the next resumption, whatever the fuel.
\<close>

theorem stream_times_out_once:
  assumes "\<forall>k \<le> 30. map_of (progress_store (observed env k)) op_id = None"
  shows "wait_for_operation op_id env 0 = 30
       \<and> stream_events (fuel + 3) op_id env NotStarted = [Connected op_id, Timeout]
       \<and> filter (\<lambda>ev. ev = Timeout) (stream_events (fuel + 3) op_id env NotStarted) = [Timeout]
       \<and> last (stream_events (fuel + 3) op_id env NotStarted) = Timeout
       \<and> stream_ended (fuel + 3) op_id env NotStarted
       \<and> resume op_id env AtTimeout = (None, Finished)"
proof -
  have a: "\<forall>k \<le> max_wait. map_of (progress_store (observed env k)) op_id = None"
    using assms by (simp add: max_wait_def)
  have w: "wait_for_operation op_id env 0 = max_wait"
    by (rule wait_for_operation_absent[OF a]) simp
  have n: "map_of (progress_store (observed env max_wait)) op_id = None"
    using a by simp
  have f: "fuel + 3 = Suc (Suc (Suc fuel))" by simp
  have e: "stream_ended (fuel + 3) op_id env NotStarted" unfolding f by (simp add: w n)
  show ?thesis using w timeout_path[OF a, of fuel] e by (simp add: max_wait_def)
qed

theorem stream_times_out_once_witness:
  "(\<forall>k \<le> 30. map_of (progress_store (observed idle_env k)) ''flashcards_1a2b3c4d'' = None)
     = True
   \<and> stream_events 5 ''flashcards_1a2b3c4d'' idle_env NotStarted
       = [Connected ''flashcards_1a2b3c4d'', Timeout]
   \<and> stream_ended 5 ''flashcards_1a2b3c4d'' idle_env NotStarted"
proof -
  have a: "\<forall>k \<le> 30. map_of (progress_store (observed idle_env k)) ''flashcards_1a2b3c4d'' = None"
    by (simp add: idle_env_def empty_process_def)
  from stream_times_out_once[OF a, of 2] a show ?thesis by simp
qed

text \<open>
  Claim C9. The first resumption yields the \<open>connected\<close> event with the operation id
  for every process, before the table is read for the first time: it does not depend on
  what the process holds. The timeout path is \<open>connected\<close>, then \<open>timeout\<close>.
\<close>

theorem stream_starts_connected:
  "resume op_id env NotStarted = (Some (Connected op_id), AtConnected)
   \<and> resume op_id env NotStarted = resume op_id env' NotStarted
   \<and> stream_events (Suc fuel) op_id env NotStarted
        = Connected op_id # stream_events fuel op_id env AtConnected
   \<and> ((\<forall>k \<le> 30. map_of (progress_store (observed env k)) op_id = None) \<longrightarrow>
         stream_events (fuel + 3) op_id env NotStarted = [Connected op_id, Timeout])"
proof (intro conjI impI)
  assume "\<forall>k \<le> 30. map_of (progress_store (observed env k)) op_id = None"
  then have "\<forall>k \<le> max_wait. map_of (progress_store (observed env k)) op_id = None"
    by (simp add: max_wait_def)
  then show "stream_events (fuel + 3) op_id env NotStarted = [Connected op_id, Timeout]"
    by (rule timeout_path)
qed simp_all

theorem stream_starts_connected_witness:
  "stream_events 4 ''flashcards_0000aaaa'' idle_env NotStarted
     = [Connected ''flashcards_0000aaaa'', Timeout]
   \<and> hd (stream_events 1 ''flashcards_0000aaaa'' idle_env NotStarted)
       = Connected ''flashcards_0000aaaa''"
proof -
  have a: "\<forall>k \<le> 30. map_of (progress_store (observed idle_env k)) ''flashcards_0000aaaa'' = None"
    by (simp add: idle_env_def empty_process_def)
  note t = stream_starts_connected[of "''flashcards_0000aaaa''" idle_env idle_env 0]
  have "stream_events (1 + 3) ''flashcards_0000aaaa'' idle_env NotStarted
          = [Connected ''flashcards_0000aaaa'', Timeout]"
    using stream_starts_connected[of "''flashcards_0000aaaa''" idle_env idle_env 1] a by blast
  moreover have "stream_events (Suc 0) ''flashcards_0000aaaa'' idle_env NotStarted
          = Connected ''flashcards_0000aaaa'' # stream_events 0 ''flashcards_0000aaaa'' idle_env AtConnected"
    using t by blast
  ultimately show ?thesis by simp
qed

end
